theory Spec2Isabelle
  imports Main "HOL-Library.Sublist"
begin

section \<open>JavaScript strings\<close>

text \<open>
  The scripts work on JavaScript strings. A string is modelled as a list of characters;
  the texts the scripts handle (catalog keys, Solidity and TypeScript sources, markdown)
  are ASCII, and a character with a code above 127 is neither a letter nor white space
  in this model.
\<close>

definition is_space :: "char \<Rightarrow> bool" where
  \<comment> \<open>the class \<open>\s\<close> of a regular expression, and what \<open>trim\<close> removes\<close>
  "is_space c = (c \<in> set [CHR 0x09, CHR 0x0A, CHR 0x0B, CHR 0x0C, CHR 0x0D, CHR 0x20])"

definition is_line_terminator :: "char \<Rightarrow> bool" where
  \<comment> \<open>what the dot of a regular expression does not match\<close>
  "is_line_terminator c = (c = CHR 0x0A \<or> c = CHR 0x0D)"

definition is_word :: "char \<Rightarrow> bool" where
  \<comment> \<open>the class \<open>\w\<close>: letters, digits and the underscore\<close>
  "is_word c =
     (let n = (of_char c :: nat)
      in (65 \<le> n \<and> n \<le> 90) \<or> (97 \<le> n \<and> n \<le> 122) \<or> (48 \<le> n \<and> n \<le> 57) \<or> n = 95)"

definition toUpperCase_char :: "char \<Rightarrow> char" where
  "toUpperCase_char c =
     (let n = (of_char c :: nat) in if 97 \<le> n \<and> n \<le> 122 then char_of (n - 32) else c)"

definition toLowerCase_char :: "char \<Rightarrow> char" where
  "toLowerCase_char c =
     (let n = (of_char c :: nat) in if 65 \<le> n \<and> n \<le> 90 then char_of (n + 32) else c)"

definition toLowerCase :: "string \<Rightarrow> string" where
  "toLowerCase s = map toLowerCase_char s"

definition trim :: "string \<Rightarrow> string" where
  "trim s = rev (dropWhile is_space (rev (dropWhile is_space s)))"

text \<open>\<open>s.split(d)\<close> for a separator of one character: the empty string gives one empty piece.\<close>

fun split :: "char \<Rightarrow> string \<Rightarrow> string list" where
  "split d [] = [[]]"
| "split d (c # cs) =
     (if c = d then [] # split d cs
      else (case split d cs of w # ws \<Rightarrow> (c # w) # ws | [] \<Rightarrow> [[c]]))"

fun join :: "string \<Rightarrow> string list \<Rightarrow> string" where
  "join sep [] = []"
| "join sep [x] = x"
| "join sep (x # y # ys) = x @ sep @ join sep (y # ys)"

fun includes_str :: "string \<Rightarrow> string \<Rightarrow> bool" where
  "includes_str [] sub = (sub = [])"
| "includes_str (c # cs) sub = (prefix sub (c # cs) \<or> includes_str cs sub)"

definition endsWith :: "string \<Rightarrow> string \<Rightarrow> bool" where
  "endsWith s suf = suffix suf s"

definition newline :: string where
  "newline = [CHR 0x0A]"

definition unlines :: "string list \<Rightarrow> string" where
  \<comment> \<open>the lines of a template literal, each ended by a line feed\<close>
  "unlines ls = concat (map (\<lambda>l. l @ newline) ls)"

definition String_of :: "string option \<Rightarrow> string" where
  \<comment> \<open>a value interpolated into a template literal; \<open>None\<close> is \<open>undefined\<close>\<close>
  "String_of v = (case v of None \<Rightarrow> ''undefined'' | Some s \<Rightarrow> s)"

section \<open>JavaScript objects used as tables\<close>

text \<open>
  Both catalogs, and the grouping tables of the documentation generator, are plain
  objects read with \<open>table[key]\<close>. Such a read finds the object's own property, and
  otherwise the property of that name on \<open>Object.prototype\<close>: for the twelve names below
  the result is a function (for \<open>__proto__\<close> the prototype object itself), which is a
  truthy value and not an entry of the table. The model keeps the two apart.
\<close>

definition Object_prototype_keys :: "string list" where
  "Object_prototype_keys =
     [''constructor'', ''__defineGetter__'', ''__defineSetter__'', ''hasOwnProperty'',
      ''__lookupGetter__'', ''__lookupSetter__'', ''isPrototypeOf'', ''propertyIsEnumerable'',
      ''toString'', ''valueOf'', ''__proto__'', ''toLocaleString'']"

datatype 'a js_value = Own 'a | Inherited string

definition js_get :: "(string \<times> 'a) list \<Rightarrow> string \<Rightarrow> 'a js_value option" where
  \<comment> \<open>\<open>table[key]\<close>; \<open>None\<close> is \<open>undefined\<close>\<close>
  "js_get table key =
     (case map_of table key of
        Some v \<Rightarrow> Some (Own v)
      | None \<Rightarrow> if key \<in> set Object_prototype_keys then Some (Inherited key) else None)"

definition inherited_name :: "string \<Rightarrow> string option" where
  \<comment> \<open>the \<open>name\<close> property of the member \<open>key\<close> of \<open>Object.prototype\<close>: a function's
      name; the prototype object itself has none\<close>
  "inherited_name key =
     (if key = ''__proto__'' then None
      else if key = ''constructor'' then Some ''Object''
      else Some key)"

section \<open>Node: paths, the file system, the process\<close>

text \<open>
  A path is modelled resolved: the list of its segments from the root. \<open>path.join\<close> of
  a resolved path and a relative piece applies the segments of the piece in turn. A file
  system is the list of its entries in creation order, the root being a directory that
  always exists. A run of a script either returns, or ends at \<open>process.exit\<close>, or ends at
  an uncaught exception; in each case the files written so far stay. The lines written
  with \<open>console.error\<close> are kept; the status lines written with \<open>console.log\<close> are
  not part of the model.
\<close>

type_synonym path = "string list"

datatype node = File string | Directory

type_synonym filesystem = "(path \<times> node) list"

datatype js_error = TypeError | ENOENT | ENOTDIR | EISDIR | EEXIST

datatype abort = Exit nat | Throw js_error

record world =
  fs :: filesystem
  cwd :: path
  stderr :: "string list"

type_synonym 'a io = "world \<Rightarrow> (abort + 'a) \<times> world"

definition ret :: "'a \<Rightarrow> 'a io" where
  "ret x w = (Inr x, w)"

definition io_bind :: "'a io \<Rightarrow> ('a \<Rightarrow> 'b io) \<Rightarrow> 'b io" where
  "io_bind m f w = (case m w of (Inl a, w') \<Rightarrow> (Inl a, w') | (Inr x, w') \<Rightarrow> f x w')"

definition throw :: "js_error \<Rightarrow> 'a io" where
  "throw e w = (Inl (Throw e), w)"

definition process_exit :: "nat \<Rightarrow> 'a io" where
  "process_exit n w = (Inl (Exit n), w)"

definition try_js :: "js_error + 'a \<Rightarrow> 'a io" where
  \<comment> \<open>an expression that may throw\<close>
  "try_js r = (case r of Inl e \<Rightarrow> throw e | Inr x \<Rightarrow> ret x)"

definition console_error :: "string \<Rightarrow> unit io" where
  "console_error line w = (Inr (), w\<lparr>stderr := stderr w @ [line]\<rparr>)"

definition process_cwd :: "path io" where
  "process_cwd w = (Inr (cwd w), w)"

definition exit_status :: "(abort + 'a) \<Rightarrow> nat" where
  \<comment> \<open>the status of the process: an uncaught exception ends it with status 1\<close>
  "exit_status r = (case r of Inr _ \<Rightarrow> 0 | Inl (Exit n) \<Rightarrow> n | Inl (Throw _) \<Rightarrow> 1)"

fun forEach :: "('a \<Rightarrow> unit io) \<Rightarrow> 'a list \<Rightarrow> unit io" where
  "forEach f [] = ret ()"
| "forEach f (x # xs) = io_bind (f x) (\<lambda>_. forEach f xs)"

definition seg_step :: "path \<Rightarrow> string \<Rightarrow> path" where
  "seg_step base seg =
     (if seg = [] \<or> seg = ''.'' then base
      else if seg = ''..'' then butlast base
      else base @ [seg])"

definition path_join :: "path \<Rightarrow> string \<Rightarrow> path" where
  "path_join base piece = foldl seg_step base (split (CHR ''/'') piece)"

definition path_resolve :: "path \<Rightarrow> string \<Rightarrow> path" where
  \<comment> \<open>a path given on the command line, against the working directory\<close>
  "path_resolve base s = (if prefix ''/'' s then path_join [] s else path_join base s)"

definition stat :: "filesystem \<Rightarrow> path \<Rightarrow> node option" where
  "stat f p = (if p = [] then Some Directory else map_of f p)"

definition existsSync :: "path \<Rightarrow> bool io" where
  "existsSync p w = (Inr (stat (fs w) p \<noteq> None), w)"

text \<open>\<open>fs.mkdirSync(p, { recursive: true })\<close>: every missing directory on the way is made.\<close>

fun mkdir_from :: "path \<Rightarrow> string list \<Rightarrow> filesystem \<Rightarrow> js_error + filesystem" where
  "mkdir_from base [] f = Inr f"
| "mkdir_from base (s # ss) f =
     (case stat f (base @ [s]) of
        Some (File _) \<Rightarrow> Inl (if ss = [] then EEXIST else ENOTDIR)
      | Some Directory \<Rightarrow> mkdir_from (base @ [s]) ss f
      | None \<Rightarrow> mkdir_from (base @ [s]) ss (f @ [(base @ [s], Directory)]))"

definition mkdirSync_recursive :: "path \<Rightarrow> unit io" where
  "mkdirSync_recursive p w =
     (case mkdir_from [] p (fs w) of
        Inl e \<Rightarrow> (Inl (Throw e), w)
      | Inr f \<Rightarrow> (Inr (), w\<lparr>fs := f\<rparr>))"

definition fs_put :: "path \<Rightarrow> node \<Rightarrow> filesystem \<Rightarrow> filesystem" where
  "fs_put p n f =
     (if map_of f p = None then f @ [(p, n)]
      else map (\<lambda>(q, m). if q = p then (q, n) else (q, m)) f)"

definition writeFileSync :: "path \<Rightarrow> string \<Rightarrow> unit io" where
  "writeFileSync p data w =
     (if p = [] then (Inl (Throw EISDIR), w)
      else (case stat (fs w) (butlast p) of
              None \<Rightarrow> (Inl (Throw ENOENT), w)
            | Some (File _) \<Rightarrow> (Inl (Throw ENOTDIR), w)
            | Some Directory \<Rightarrow>
                (case stat (fs w) p of
                   Some Directory \<Rightarrow> (Inl (Throw EISDIR), w)
                 | _ \<Rightarrow> (Inr (), w\<lparr>fs := fs_put p (File data) (fs w)\<rparr>))))"

definition readFileSync :: "path \<Rightarrow> string io" where
  "readFileSync p w =
     (case stat (fs w) p of
        None \<Rightarrow> (Inl (Throw ENOENT), w)
      | Some Directory \<Rightarrow> (Inl (Throw EISDIR), w)
      | Some (File data) \<Rightarrow> (Inr data, w))"

text \<open>
  \<open>fs.readdirSync(p)\<close>: the names of the entries of the directory. Node reads them with
  \<open>scandir\<close>, which sorts them with \<open>strcmp\<close>: the order is the one of the character codes,
  a name coming before the names it is a proper prefix of.
\<close>

fun name_le :: "string \<Rightarrow> string \<Rightarrow> bool" where
  "name_le [] t = True"
| "name_le (c # cs) [] = False"
| "name_le (c # cs) (d # ds) = ((of_char c :: nat) < of_char d \<or> (c = d \<and> name_le cs ds))"

fun insert_name :: "string \<Rightarrow> string list \<Rightarrow> string list" where
  "insert_name x [] = [x]"
| "insert_name x (y # ys) = (if name_le x y then x # y # ys else y # insert_name x ys)"

definition sort_names :: "string list \<Rightarrow> string list" where
  "sort_names xs = foldr insert_name xs []"

definition readdirSync :: "path \<Rightarrow> string list io" where
  "readdirSync p w =
     (case stat (fs w) p of
        None \<Rightarrow> (Inl (Throw ENOENT), w)
      | Some (File _) \<Rightarrow> (Inl (Throw ENOTDIR), w)
      | Some Directory \<Rightarrow>
          (Inr (sort_names (map (\<lambda>(q, n). last q) (filter (\<lambda>(q, n). q \<noteq> [] \<and> butlast q = p) (fs w)))),
           w))"

section \<open>create-example.ts\<close>

record ExampleConfig =
  cfg_name :: string
  cfg_description :: string
  cfg_category :: string
  cfg_features :: "string list"

definition EXAMPLE_CATEGORIES :: "(string \<times> ExampleConfig) list" where
  "EXAMPLE_CATEGORIES =
     [(''encrypted-counter'',
       \<lparr>cfg_name = ''Encrypted Counter'',
        cfg_description = ''Basic FHE counter demonstrating simple encrypted arithmetic'',
        cfg_category = ''basic'',
        cfg_features = [''addition'', ''subtraction'', ''encryption'']\<rparr>),
      (''access-control'',
       \<lparr>cfg_name = ''Access Control System'',
        cfg_description = ''Advanced access control demonstrating permission management'',
        cfg_category = ''access-control'',
        cfg_features = [''role-based-permissions'', ''grant-access'', ''revoke-access'']\<rparr>),
      (''encrypted-arithmetic'',
       \<lparr>cfg_name = ''Encrypted Arithmetic'',
        cfg_description = ''Multiple encrypted types with various arithmetic operations'',
        cfg_category = ''arithmetic'',
        cfg_features = [''addition'', ''subtraction'', ''multiplication'', ''comparison'']\<rparr>),
      (''user-decryption'',
       \<lparr>cfg_name = ''User Decryption'',
        cfg_description = ''User-initiated decryption of encrypted values'',
        cfg_category = ''decryption'',
        cfg_features = [''user-decrypt'', ''authorized-decryption'']\<rparr>),
      (''public-decryption'',
       \<lparr>cfg_name = ''Public Decryption'',
        cfg_description = ''Public decryption of encrypted contract results'',
        cfg_category = ''decryption'',
        cfg_features = [''public-decrypt'', ''result-publication'']\<rparr>)]"

text \<open>
  The properties read from a looked-up entry. A member of \<open>Object.prototype\<close> has a
  \<open>name\<close> at most; its \<open>description\<close>, \<open>category\<close> and \<open>features\<close> are \<open>undefined\<close>.
\<close>

definition config_name :: "ExampleConfig js_value \<Rightarrow> string option" where
  "config_name v = (case v of Own c \<Rightarrow> Some (cfg_name c) | Inherited k \<Rightarrow> inherited_name k)"

definition config_description :: "ExampleConfig js_value \<Rightarrow> string option" where
  "config_description v = (case v of Own c \<Rightarrow> Some (cfg_description c) | Inherited k \<Rightarrow> None)"

definition config_category :: "ExampleConfig js_value \<Rightarrow> string option" where
  "config_category v = (case v of Own c \<Rightarrow> Some (cfg_category c) | Inherited k \<Rightarrow> None)"

definition config_features :: "ExampleConfig js_value \<Rightarrow> string list option" where
  "config_features v = (case v of Own c \<Rightarrow> Some (cfg_features c) | Inherited k \<Rightarrow> None)"

subsection \<open>convertToCamelCase\<close>

definition capitalize :: "string \<Rightarrow> string" where
  \<comment> \<open>\<open>word.charAt(0).toUpperCase() + word.slice(1)\<close>\<close>
  "capitalize word = (case word of [] \<Rightarrow> [] | c # cs \<Rightarrow> toUpperCase_char c # cs)"

definition convertToCamelCase :: "string \<Rightarrow> string" where
  "convertToCamelCase str =
     join [] (map (\<lambda>(index, word). if index = (0::nat) then capitalize word else capitalize word)
                  (enumerate 0 (split (CHR ''-'') str)))"

subsection \<open>The templates\<close>

text \<open>
  \<open>generateContractTemplate(config.name, config.category)\<close>: an \<open>undefined\<close> argument
  prints as \<open>undefined\<close> where it is interpolated, and \<open>convertToCamelCase(undefined)\<close>
  throws a \<open>TypeError\<close>.
\<close>

definition generateContractTemplate :: "string option \<Rightarrow> string option \<Rightarrow> js_error + string" where
  \<open>generateContractTemplate exampleName category =
     (case exampleName of
        None \<Rightarrow> Inl TypeError
      | Some str \<Rightarrow> Inr (unlines
       [''// SPDX-License-Identifier: BSD-3-Clause-Clear'',
         ''pragma solidity ^0.8.24;'',
         '''',
         ''import "@fhevm/solidity/lib/FHE.sol";'',
         ''import { ZamaEthereumConfig } from "@fhevm/solidity/config/ZamaConfig.sol";'',
         '''',
         ''/**'',
         '' * @title '' @ String_of exampleName,
         '' * @notice Example demonstrating '' @ String_of category @ '' patterns with FHEVM'',
         '' * @dev This contract showcases how to use encrypted types and operations'',
         '' */'',
         ''contract '' @ convertToCamelCase str @ '' is ZamaEthereumConfig {'',
         ''    /**'',
         ''     * @notice Example encrypted storage variable'',
         ''     */'',
         ''    euint32 private encryptedValue;'',
         '''',
         ''    /**'',
         ''     * @notice Initialize with encrypted value'',
         ''     * @param initialValue The initial encrypted value'',
         ''     */'',
         ''    constructor() {'',
         ''        encryptedValue = FHE.asEuint32(0);'',
         ''    }'',
         '''',
         ''    /**'',
         ''     * @notice Get the encrypted value'',
         ''     * @return The encrypted value stored in contract'',
         ''     */'',
         ''    function getEncryptedValue() external view returns (euint32) {'',
         ''        return encryptedValue;'',
         ''    }'',
         '''',
         ''    /**'',
         ''     * @notice Set encrypted value'',
         ''     * @param newValue The new encrypted value to store'',
         ''     * @param inputProof Proof for input encryption'',
         ''     */'',
         ''    function setEncryptedValue(externalEuint32 newValue, bytes calldata inputProof) external {'',
         ''        euint32 encryptedInput = FHE.fromExternal(newValue, inputProof);'',
         ''        encryptedValue = encryptedInput;'',
         ''        FHE.allowThis(encryptedValue);'',
         ''    }'',
         '''',
         ''    /**'',
         ''     * @notice Add to encrypted value'',
         ''     * @param addAmount Amount to add'',
         ''     * @param inputProof Proof for input encryption'',
         ''     */'',
         ''    function addToValue(externalEuint32 addAmount, bytes calldata inputProof) external {'',
         ''        euint32 encryptedAmount = FHE.fromExternal(addAmount, inputProof);'',
         ''        encryptedValue = FHE.add(encryptedValue, encryptedAmount);'',
         ''        FHE.allowThis(encryptedValue);'',
         ''    }'',
         ''}'']))\<close>

definition generateTestTemplate :: "string \<Rightarrow> string" where
  \<open>generateTestTemplate contractName = unlines
       [''import { expect } from "chai";'',
         ''import { ethers } from "hardhat";'',
         ''import { Contract, Signer } from "ethers";'',
         '''',
         ''/**'',
         '' * @test '' @ contractName @ '' Test Suite'',
         '' * @chapter basic'',
         '' * @description Complete test coverage for the '' @ contractName @ '' contract'',
         '' */'',
         ''describe("'' @ contractName @ ''", function () {'',
         ''    let contract: Contract;'',
         ''    let owner: Signer;'',
         '''',
         ''    before(async function () {'',
         ''        const [ownerSigner] = await ethers.getSigners();'',
         ''        owner = ownerSigner;'',
         '''',
         ''        const ContractFactory = await ethers.getContractFactory("'' @ contractName @ ''");'',
         ''        contract = await ContractFactory.deploy();'',
         ''        await contract.waitForDeployment();'',
         ''    });'',
         '''',
         ''    /**'',
         ''     * @test Deployment'',
         ''     * @category basic'',
         ''     */'',
         ''    it("should deploy successfully", async function () {'',
         ''        expect(contract.target).to.not.equal(ethers.ZeroAddress);'',
         ''    });'',
         '''',
         ''    /**'',
         ''     * @test Basic operations'',
         ''     * @category basic'',
         ''     */'',
         ''    it("should get encrypted value", async function () {'',
         ''        const value = await contract.getEncryptedValue();'',
         ''        expect(value).to.not.be.undefined;'',
         ''    });'',
         ''});'']\<close>

definition generateHardhatConfigTemplate :: string where
  \<open>generateHardhatConfigTemplate = unlines
       [''import { HardhatUserConfig } from "hardhat/config";'',
         ''import "@nomiclabs/hardhat-ethers";'',
         ''import "@nomiclabs/hardhat-etherscan";'',
         ''import "hardhat-deploy";'',
         ''import "hardhat-gas-reporter";'',
         '''',
         ''require("dotenv").config();'',
         '''',
         ''const MNEMONIC = process.env.MNEMONIC || "test test test test test test test test test test test junk";'',
         ''const INFURA_API_KEY = process.env.INFURA_API_KEY || "";'',
         '''',
         ''const config: HardhatUserConfig = {'',
         ''    solidity: {'',
         ''        version: "0.8.24",'',
         ''        settings: {'',
         ''            optimizer: { enabled: true, runs: 200 }'',
         ''        }'',
         ''    },'',
         ''    networks: {'',
         ''        localhost: { url: "http://127.0.0.1:8545", chainId: 1337 },'',
         ''        sepolia: {'',
         ''            url: `https://sepolia.infura.io/v3/${INFURA_API_KEY}`,'',
         ''            accounts: { mnemonic: MNEMONIC },'',
         ''            chainId: 11155111'',
         ''        }'',
         ''    }'',
         ''};'',
         '''',
         ''export default config;'']\<close>

text \<open>What \<open>JSON.stringify(value, null, 2)\<close> prints for the two object literals.\<close>

definition json_escape :: "char \<Rightarrow> string" where
  \<open>json_escape c =
     (let n = (of_char c :: nat) in
      if c = CHR 0x22 then [CHR 0x5C, CHR 0x22]
      else if c = CHR 0x5C then [CHR 0x5C, CHR 0x5C]
      else if c = CHR 0x08 then [CHR 0x5C, CHR ''b'']
      else if c = CHR 0x0C then [CHR 0x5C, CHR ''f'']
      else if c = CHR 0x0A then [CHR 0x5C, CHR ''n'']
      else if c = CHR 0x0D then [CHR 0x5C, CHR ''r'']
      else if c = CHR 0x09 then [CHR 0x5C, CHR ''t'']
      else if n < 32 then [CHR 0x5C, CHR ''u'', CHR ''0'', CHR ''0'',
                           ''0123456789abcdef'' ! (n div 16), ''0123456789abcdef'' ! (n mod 16)]
      else [c])\<close>

definition json_quote :: "string \<Rightarrow> string" where
  \<open>json_quote s = [CHR 0x22] @ concat (map json_escape s) @ [CHR 0x22]\<close>

definition tsconfig_json :: string where
  \<open>tsconfig_json = join newline
       [''{'',
        ''  "compilerOptions": {'',
        ''    "target": "ES2020",'',
        ''    "module": "commonjs",'',
        ''    "lib": ['',
        ''      "ES2020"'',
        ''    ],'',
        ''    "outDir": "./dist",'',
        ''    "rootDir": "./",'',
        ''    "strict": true,'',
        ''    "esModuleInterop": true,'',
        ''    "skipLibCheck": true,'',
        ''    "forceConsistentCasingInFileNames": true'',
        ''  },'',
        ''  "include": ['',
        ''    "**/*.ts"'',
        ''  ],'',
        ''  "exclude": ['',
        ''    "node_modules",'',
        ''    "dist"'',
        ''  ]'',
        ''}'']\<close>

definition packageJson_json :: "string \<Rightarrow> string option \<Rightarrow> string" where
  \<comment> \<open>a property whose value is \<open>undefined\<close> is left out\<close>
  \<open>packageJson_json exampleKey description = join newline
       ([''{'',
         ''  "name": '' @ json_quote (''fhevm-example-'' @ exampleKey) @ '','',
         ''  "version": "1.0.0",'']
        @ (case description of None \<Rightarrow> [] | Some d \<Rightarrow> [''  "description": '' @ json_quote d @ '',''])
        @ [''  "scripts": {'',
           ''    "compile": "hardhat compile",'',
           ''    "test": "hardhat test",'',
           ''    "deploy": "hardhat deploy --network sepolia"'',
           ''  },'',
           ''  "dependencies": {'',
           ''    "@fhevm/solidity": "^0.3.0",'',
           ''    "@openzeppelin/contracts": "^5.0.1",'',
           ''    "ethers": "^6.10.0"'',
           ''  },'',
           ''  "devDependencies": {'',
           ''    "@nomiclabs/hardhat-ethers": "^2.2.3",'',
           ''    "@types/chai": "^4.3.11",'',
           ''    "@types/mocha": "^10.0.6",'',
           ''    "chai": "^4.3.10",'',
           ''    "hardhat": "^2.19.4",'',
           ''    "hardhat-deploy": "^0.11.45",'',
           ''    "typescript": "^5.3.3"'',
           ''  }'',
           ''}''])\<close>

text \<open>The README literal: \<open>config.features.map\<close> throws when \<open>features\<close> is \<open>undefined\<close>.\<close>

definition readmeContent :: "ExampleConfig js_value \<Rightarrow> js_error + string" where
  \<open>readmeContent config =
     (case config_features config of
        None \<Rightarrow> Inl TypeError
      | Some features \<Rightarrow> Inr (unlines
       [''# '' @ String_of (config_name config),
         '''',
         String_of (config_description config),
         '''',
         ''## Features'',
         '''',
         join newline (map (\<lambda>f. ''- '' @ f) features),
         '''',
         ''## Quick Start'',
         '''',
         ''```bash'',
         ''npm install'',
         ''npm run compile'',
         ''npm run test'',
         ''```'',
         '''',
         ''## Deployment'',
         '''',
         ''```bash'',
         ''npm run deploy'',
         ''```'']))\<close>

subsection \<open>createProjectStructure and generateExample\<close>

definition project_dirs :: "string list" where
  "project_dirs =
     [''contracts'', ''test'', ''deploy'', ''tasks'', ''scripts'', ''docs'',
      ''.github/workflows'', ''.vscode'']"

definition createProjectStructure :: "path \<Rightarrow> unit io" where
  "createProjectStructure projectPath =
     forEach (\<lambda>dir.
        io_bind (existsSync (path_join projectPath dir)) (\<lambda>found.
        if \<not> found then mkdirSync_recursive (path_join projectPath dir) else ret ()))
      project_dirs"

definition generateExample :: "string \<Rightarrow> path \<Rightarrow> unit io" where
  "generateExample exampleKey outputDir =
     (case js_get EXAMPLE_CATEGORIES exampleKey of
        None \<Rightarrow>
          io_bind (console_error (''Unknown example: '' @ exampleKey)) (\<lambda>_.
          io_bind (console_error (''Available examples: '' @ join '', '' (map fst EXAMPLE_CATEGORIES))) (\<lambda>_.
          process_exit 1))
      | Some config \<Rightarrow>
          (let projectName = convertToCamelCase exampleKey;
               projectPath = path_join outputDir projectName
           in
           io_bind (createProjectStructure projectPath) (\<lambda>_.
           io_bind (try_js (generateContractTemplate (config_name config) (config_category config))) (\<lambda>contractContent.
           io_bind (writeFileSync (path_join (path_join projectPath ''contracts'') (projectName @ ''.sol''))
                      contractContent) (\<lambda>_.
           io_bind (writeFileSync (path_join (path_join projectPath ''test'') (projectName @ ''.test.ts''))
                      (generateTestTemplate projectName)) (\<lambda>_.
           io_bind (writeFileSync (path_join projectPath ''hardhat.config.ts'')
                      generateHardhatConfigTemplate) (\<lambda>_.
           io_bind (writeFileSync (path_join projectPath ''tsconfig.json'') tsconfig_json) (\<lambda>_.
           io_bind (writeFileSync (path_join projectPath ''package.json'')
                      (packageJson_json exampleKey (config_description config))) (\<lambda>_.
           io_bind (try_js (readmeContent config)) (\<lambda>readme.
           writeFileSync (path_join projectPath ''README.md'') readme))))))))))"

text \<open>
  \<open>main\<close> of create-example.ts, on \<open>process.argv.slice(2)\<close>. Listing and the usage text
  only print.
\<close>

definition main_create_example :: "string list \<Rightarrow> unit io" where
  "main_create_example args =
     (if args = [] \<or> hd args = ''--help'' \<or> hd args = ''-h'' then ret ()
      else if hd args = ''list'' then ret ()
      else if hd args = ''create'' then
        (if length args < 2 then
           io_bind (console_error ''Error: Please specify an example name'') (\<lambda>_.
           io_bind (console_error ''Usage: npx ts-node scripts/create-example.ts create <example> [dir]'') (\<lambda>_.
           process_exit 1))
         else
           io_bind process_cwd (\<lambda>here.
           generateExample (args ! 1)
             (path_resolve here (if 2 < length args \<and> args ! 2 \<noteq> [] then args ! 2 else ''.''))))
      else
        io_bind (console_error (''Unknown command: '' @ hd args)) (\<lambda>_.
        io_bind (console_error ''Use --help for usage information'') (\<lambda>_.
        process_exit 1)))"

section \<open>generate-docs.ts\<close>

record DocMetadata =
  doc_name :: string
  doc_category :: string
  doc_chapter :: string
  doc_description :: string

subsection \<open>The regular expressions\<close>

text \<open>
  Each regular expression of the script is modelled by the function that computes what
  the script uses of its leftmost match. \<open>/@tag\s+(.+)/\<close>: after the tag, the white
  space is matched greedily and given back one character at a time until the dot finds
  at least one character that is no line terminator; the group is the longest run of
  such characters from there.
\<close>

fun tag_backtrack :: "nat \<Rightarrow> string \<Rightarrow> string option" where
  "tag_backtrack 0 r = None"
| "tag_backtrack (Suc k) r =
     (if takeWhile (\<lambda>c. \<not> is_line_terminator c) (drop (Suc k) r) \<noteq> []
      then Some (takeWhile (\<lambda>c. \<not> is_line_terminator c) (drop (Suc k) r))
      else tag_backtrack k r)"

definition tag_rest :: "string \<Rightarrow> string option" where
  \<comment> \<open>\<open>\s+(.+)\<close> at the start of \<open>r\<close>\<close>
  "tag_rest r = tag_backtrack (length (takeWhile is_space r)) r"

fun match_tag :: "string \<Rightarrow> string \<Rightarrow> string option" where
  \<comment> \<open>group 1 of \<open>s.match(/@tag\s+(.+)/)\<close>, \<open>None\<close> when there is no match\<close>
  "match_tag tag [] = None"
| "match_tag tag (c # cs) =
     (if prefix tag (c # cs) then
        (case tag_rest (drop (length tag) (c # cs)) of
           Some cap \<Rightarrow> Some cap
         | None \<Rightarrow> match_tag tag cs)
      else match_tag tag cs)"

text \<open>
  \<open>/it\("([^"]+)"/\<close>: the text \<open>it("\<close>, a non-empty run of characters other than the
  double quote, and a double quote.
\<close>

definition it_at :: "string \<Rightarrow> string option" where
  \<open>it_at s =
     (if prefix ''it("'' s
         \<and> takeWhile (\<lambda>c. c \<noteq> CHR 0x22) (drop 4 s) \<noteq> []
         \<and> dropWhile (\<lambda>c. c \<noteq> CHR 0x22) (drop 4 s) \<noteq> []
      then Some (takeWhile (\<lambda>c. c \<noteq> CHR 0x22) (drop 4 s))
      else None)\<close>

fun match_it :: "string \<Rightarrow> string option" where
  "match_it [] = None"
| "match_it (c # cs) = (case it_at (c # cs) of Some cap \<Rightarrow> Some cap | None \<Rightarrow> match_it cs)"

text \<open>\<open>/contract\s+(\w+)/\<close>.\<close>

definition contract_at :: "string \<Rightarrow> string option" where
  "contract_at s =
     (if prefix ''contract'' s
         \<and> takeWhile is_space (drop 8 s) \<noteq> []
         \<and> takeWhile is_word (dropWhile is_space (drop 8 s)) \<noteq> []
      then Some (takeWhile is_word (dropWhile is_space (drop 8 s)))
      else None)"

fun match_contract :: "string \<Rightarrow> string option" where
  "match_contract [] = None"
| "match_contract (c # cs) =
     (case contract_at (c # cs) of Some cap \<Rightarrow> Some cap | None \<Rightarrow> match_contract cs)"

text \<open>
  \<open>/function\s+(\w+)\s*\([^)]*\)[^{]*\{/g\<close>: the name, and the text after the match,
  where the next search starts.
\<close>

definition function_at :: "string \<Rightarrow> (string \<times> string) option" where
  "function_at s =
     (if prefix ''function'' s
         \<and> takeWhile is_space (drop 8 s) \<noteq> []
         \<and> takeWhile is_word (dropWhile is_space (drop 8 s)) \<noteq> []
      then
        (let name = takeWhile is_word (dropWhile is_space (drop 8 s));
             after_name = dropWhile is_space (dropWhile is_word (dropWhile is_space (drop 8 s)))
         in if prefix ''('' after_name then
              (let at_paren = dropWhile (\<lambda>c. c \<noteq> CHR '')'') (tl after_name) in
               if at_paren = [] then None
               else (let at_brace = dropWhile (\<lambda>c. c \<noteq> CHR ''{'') (tl at_paren) in
                     if at_brace = [] then None else Some (name, tl at_brace)))
            else None)
      else None)"

fun function_exec :: "string \<Rightarrow> (string \<times> string) option" where
  "function_exec [] = None"
| "function_exec (c # cs) =
     (case function_at (c # cs) of Some m \<Rightarrow> Some m | None \<Rightarrow> function_exec cs)"

text \<open>
  \<open>/\/\*\*\n([\s\S]*?)\*\/\s*(contract|function)/g\<close>: the opening marker and a line feed,
  the shortest text up to a closing marker that is followed, after optional white space,
  by one of the two keywords. The result is the comment text, the keyword and the text
  after the match.
\<close>

definition keyword_at :: "string \<Rightarrow> (string \<times> string) option" where
  \<comment> \<open>\<open>\s*(contract|function)\<close> at the start of \<open>r\<close>\<close>
  "keyword_at r =
     (if prefix ''contract'' (dropWhile is_space r)
        then Some (''contract'', drop 8 (dropWhile is_space r))
      else if prefix ''function'' (dropWhile is_space r)
        then Some (''function'', drop 8 (dropWhile is_space r))
      else None)"

fun lazy_body :: "string \<Rightarrow> (string \<times> string \<times> string) option" where
  "lazy_body [] = None"
| "lazy_body (c # cs) =
     (case (if prefix ''*/'' (c # cs) then keyword_at (drop 2 (c # cs)) else None) of
        Some (kw, rest) \<Rightarrow> Some ([], kw, rest)
      | None \<Rightarrow> (case lazy_body cs of
                    Some (body, kw, rest) \<Rightarrow> Some (c # body, kw, rest)
                  | None \<Rightarrow> None))"

fun docRegex_exec :: "string \<Rightarrow> (string \<times> string \<times> string) option" where
  "docRegex_exec [] = None"
| "docRegex_exec (c # cs) =
     (case (if prefix (''/**'' @ newline) (c # cs) then lazy_body (drop 4 (c # cs)) else None) of
        Some m \<Rightarrow> Some m
      | None \<Rightarrow> docRegex_exec cs)"

text \<open>\<open>s.replace(/\s+/g, "-")\<close>: every run of white space becomes one hyphen.\<close>

fun replace_spaces :: "bool \<Rightarrow> string \<Rightarrow> string" where
  \<comment> \<open>the flag says that the run the character belongs to is already replaced\<close>
  "replace_spaces in_run [] = []"
| "replace_spaces in_run (c # cs) =
     (if is_space c then (if in_run then replace_spaces True cs else CHR ''-'' # replace_spaces True cs)
      else c # replace_spaces False cs)"

subsection \<open>extractSolidityDocs\<close>

definition tag_field :: "string \<Rightarrow> string \<Rightarrow> string" where
  \<comment> \<open>\<open>m ? m[1].trim() : "general"\<close>\<close>
  "tag_field tag block = (case match_tag tag block of None \<Rightarrow> ''general'' | Some cap \<Rightarrow> trim cap)"

definition solidity_record :: "string \<Rightarrow> DocMetadata list" where
  \<comment> \<open>the body of the loop: what one match adds to \<open>docs\<close>\<close>
  "solidity_record commentBlock =
     (case match_tag ''@title'' commentBlock of
        None \<Rightarrow> []
      | Some title \<Rightarrow>
          [\<lparr>doc_name = trim title,
            doc_category = tag_field ''@category'' commentBlock,
            doc_chapter = tag_field ''@chapter'' commentBlock,
            doc_description =
              (case match_tag ''@notice'' commentBlock of None \<Rightarrow> [] | Some d \<Rightarrow> trim d)\<rparr>])"

text \<open>
  The loop \<open>while ((match = docRegex.exec(content)) !== null)\<close>, for a body that
  adds \<open>body commentBlock\<close> to the result.
\<close>

function docRegex_loop :: "(string \<Rightarrow> 'a list) \<Rightarrow> string \<Rightarrow> 'a list" where
  "docRegex_loop body content =
     (case docRegex_exec content of
        None \<Rightarrow> []
      | Some (commentBlock, kw, rest) \<Rightarrow> body commentBlock @ docRegex_loop body rest)"
  by pat_completeness auto
termination
proof (relation "measure (\<lambda>(body, content). length content)")
  show "wf (measure (\<lambda>(body, content). length content))" by simp
next
  fix body :: "string \<Rightarrow> 'a list" and content :: string and m commentBlock r kw rest
  assume "docRegex_exec content = Some m" and "(commentBlock, r) = m" and "(kw, rest) = r"
  then have ex: "docRegex_exec content = Some (commentBlock, kw, rest)" by simp
  have kw_len: "\<And>r k t. keyword_at r = Some (k, t) \<Longrightarrow> length t \<le> length r"
  proof -
    fix r :: string and k t
    have "length (dropWhile is_space r) - 8 \<le> length r"
      using length_dropWhile_le[of is_space r] by linarith
    then show "keyword_at r = Some (k, t) \<Longrightarrow> length t \<le> length r"
      by (auto simp: keyword_at_def split: if_splits)
  qed
  have body_len: "\<And>s b k t. lazy_body s = Some (b, k, t) \<Longrightarrow> length t < length s"
  proof -
    fix s :: string and b k t
    show "lazy_body s = Some (b, k, t) \<Longrightarrow> length t < length s"
    proof (induction s arbitrary: b)
      case Nil
      then show ?case by simp
    next
      case (Cons c cs)
      show ?case
      proof (cases "if prefix ''*/'' (c # cs) then keyword_at (drop 2 (c # cs)) else None")
        case None
        with Cons.prems obtain b' where "lazy_body cs = Some (b', k, t)"
          by (auto split: option.splits)
        from Cons.IH[OF this] show ?thesis by simp
      next
        case (Some a)
        with Cons.prems have "keyword_at (drop 2 (c # cs)) = Some (k, t)" and "prefix ''*/'' (c # cs)"
          by (auto split: if_splits)
        from kw_len[OF this(1)] this(2) show ?thesis
          by (cases cs) (auto simp: prefix_def)
      qed
    qed
  qed
  have "\<And>s b k t. docRegex_exec s = Some (b, k, t) \<Longrightarrow> length t < length s"
  proof -
    fix s :: string and b k t
    show "docRegex_exec s = Some (b, k, t) \<Longrightarrow> length t < length s"
    proof (induction s)
      case Nil
      then show ?case by simp
    next
      case (Cons c cs)
      show ?case
      proof (cases "if prefix (''/**'' @ newline) (c # cs) then lazy_body (drop 4 (c # cs)) else None")
        case None
        with Cons.prems have "docRegex_exec cs = Some (b, k, t)" by simp
        from Cons.IH[OF this] show ?thesis by simp
      next
        case (Some a)
        with Cons.prems have "lazy_body (drop 4 (c # cs)) = Some (b, k, t)"
          by (auto split: if_splits)
        from body_len[OF this] show ?thesis by simp
      qed
    qed
  qed
  from this[OF ex] show "((body, rest), (body, content)) \<in> measure (\<lambda>(body, content). length content)"
    by simp
qed

declare docRegex_loop.simps [simp del]

definition extractSolidityDocs_text :: "string \<Rightarrow> DocMetadata list" where
  "extractSolidityDocs_text content = docRegex_loop solidity_record content"

subsection \<open>extractTestDocs\<close>

definition test_record :: "string \<Rightarrow> string option \<Rightarrow> DocMetadata list" where
  \<comment> \<open>what a comment block and the line after it (\<open>None\<close> past the last line) add to \<open>docs\<close>\<close>
  \<open>test_record commentBlock testLine =
     (case testLine of
        None \<Rightarrow> []
      | Some line \<Rightarrow>
          if line \<noteq> [] \<and> includes_str line ''it("'' then
            (case match_it line of
               None \<Rightarrow> []
             | Some title \<Rightarrow>
                 [\<lparr>doc_name = title,
                   doc_category = tag_field ''@category'' commentBlock,
                   doc_chapter = tag_field ''@chapter'' commentBlock,
                   doc_description =
                     (case match_tag ''@description'' commentBlock of None \<Rightarrow> [] | Some d \<Rightarrow> trim d)\<rparr>])
          else [])\<close>

text \<open>
  The loop over the lines, from line \<open>i\<close> on, for a body that adds
  \<open>body commentBlock testLine\<close> to the result. The inner loop collects the lines up to the
  first one holding the closing marker; when there is none, \<open>commentLines[j]\<close> is
  \<open>undefined\<close> and the outer loop ends.
\<close>

function scan_comment_lines :: "(string \<Rightarrow> string option \<Rightarrow> 'a list) \<Rightarrow> string list \<Rightarrow> 'a list" where
  "scan_comment_lines body [] = []"
| "scan_comment_lines body (l # ls) =
     (if includes_str l ''/**'' then
        (case dropWhile (\<lambda>x. \<not> includes_str x ''*/'') (l # ls) of
           [] \<Rightarrow>
             body
               (concat (map (\<lambda>x. x @ newline) (takeWhile (\<lambda>x. \<not> includes_str x ''*/'') (l # ls)))
                  @ ''undefined'')
               None
         | closing # after \<Rightarrow>
             body
               (concat (map (\<lambda>x. x @ newline) (takeWhile (\<lambda>x. \<not> includes_str x ''*/'') (l # ls)))
                  @ closing)
               (case after of [] \<Rightarrow> None | testLine # _ \<Rightarrow> Some testLine)
             @ scan_comment_lines body after)
      else scan_comment_lines body ls)"
  by pat_completeness auto
termination
proof (relation "measure (\<lambda>(body, ls). length ls)")
  show "wf (measure (\<lambda>(body, ls). length ls))" by simp
next
  fix body :: "string \<Rightarrow> string option \<Rightarrow> 'a list" and l :: string and ls closing after
  assume "dropWhile (\<lambda>x. \<not> includes_str x ''*/'') (l # ls) = closing # after"
  then have "length (closing # after) \<le> length (l # ls)"
    using length_dropWhile_le[of "\<lambda>x. \<not> includes_str x ''*/''" "l # ls"] by simp
  then show "((body, after), (body, l # ls)) \<in> measure (\<lambda>(body, ls). length ls)" by simp
next
  fix body :: "string \<Rightarrow> string option \<Rightarrow> 'a list" and l :: string and ls
  show "((body, ls), (body, l # ls)) \<in> measure (\<lambda>(body, ls). length ls)" by simp
qed

definition extractTestDocs_text :: "string \<Rightarrow> DocMetadata list" where
  "extractTestDocs_text content = scan_comment_lines test_record (split (CHR 0x0A) content)"

subsection \<open>generateMarkdown\<close>

text \<open>
  The grouping tables are plain objects: a key that names a member of \<open>Object.prototype\<close>
  finds that member, which is truthy and has no \<open>push\<close>. \<open>Object.entries\<close> lists the keys
  that are array indices first, in numeric order, and then the others in insertion order.
\<close>

definition group_push :: "string \<Rightarrow> 'a \<Rightarrow> (string \<times> 'a list) list \<Rightarrow> js_error + (string \<times> 'a list) list" where
  "group_push key x table =
     (case js_get table key of
        None \<Rightarrow> Inr (table @ [(key, [x])])
      | Some (Own xs) \<Rightarrow> Inr (map (\<lambda>(k, v). if k = key then (k, v @ [x]) else (k, v)) table)
      | Some (Inherited _) \<Rightarrow> Inl TypeError)"

fun group_by :: "('a \<Rightarrow> string) \<Rightarrow> 'a list \<Rightarrow> (string \<times> 'a list) list \<Rightarrow> js_error + (string \<times> 'a list) list" where
  "group_by key [] table = Inr table"
| "group_by key (x # xs) table =
     (case group_push (key x) x table of Inl e \<Rightarrow> Inl e | Inr t \<Rightarrow> group_by key xs t)"

definition is_digit :: "char \<Rightarrow> bool" where
  "is_digit c = (48 \<le> (of_char c :: nat) \<and> (of_char c :: nat) \<le> 57)"

definition digits_value :: "string \<Rightarrow> nat" where
  "digits_value s = foldl (\<lambda>a c. 10 * a + (of_char c - 48)) 0 s"

definition is_array_index :: "string \<Rightarrow> bool" where
  "is_array_index s =
     (s \<noteq> [] \<and> list_all is_digit s \<and> (s = ''0'' \<or> hd s \<noteq> CHR ''0'') \<and> digits_value s \<le> 4294967294)"

definition js_entries :: "(string \<times> 'a) list \<Rightarrow> (string \<times> 'a) list" where
  "js_entries table =
     sort_key (\<lambda>(k, v). digits_value k) (filter (\<lambda>(k, v). is_array_index k) table)
     @ filter (\<lambda>(k, v). \<not> is_array_index k) table"

definition item_markdown :: "DocMetadata \<Rightarrow> string" where
  "item_markdown item =
     ''### '' @ doc_name item @ newline @ newline
     @ (if doc_description item \<noteq> [] then doc_description item @ newline @ newline else [])
     @ ''---'' @ newline @ newline"

definition category_markdown :: "string \<times> DocMetadata list \<Rightarrow> string" where
  "category_markdown entry =
     ''## '' @ fst entry @ newline @ newline @ concat (map item_markdown (snd entry))"

definition chapter_file :: "string \<Rightarrow> string" where
  "chapter_file chapter = replace_spaces False (toLowerCase chapter) @ ''.md''"

definition write_chapter :: "path \<Rightarrow> string \<times> DocMetadata list \<Rightarrow> unit io" where
  "write_chapter outputPath entry =
     io_bind (try_js (group_by doc_category (snd entry) [])) (\<lambda>byCategory.
     writeFileSync (path_join outputPath (chapter_file (fst entry)))
       (''# '' @ fst entry @ '' Examples'' @ newline @ newline
        @ concat (map category_markdown (js_entries byCategory))))"

definition generateMarkdown :: "DocMetadata list \<Rightarrow> path \<Rightarrow> unit io" where
  "generateMarkdown docs outputPath =
     io_bind (try_js (group_by doc_chapter docs [])) (\<lambda>byChapter.
     forEach (write_chapter outputPath) (js_entries byChapter))"

subsection \<open>generateAPIReference\<close>

function function_names :: "string \<Rightarrow> string list" where
  \<comment> \<open>the loop on \<open>functionRegex.exec(content)\<close>\<close>
  "function_names content =
     (case function_exec content of
        None \<Rightarrow> []
      | Some (name, rest) \<Rightarrow> name # function_names rest)"
  by pat_completeness auto
termination
proof (relation "measure length")
  show "wf (measure length)" by simp
next
  fix content :: string and m name rest
  assume "function_exec content = Some m" and "(name, rest) = m"
  then have ex: "function_exec content = Some (name, rest)" by simp
  have at: "\<And>s n t. function_at s = Some (n, t) \<Longrightarrow> length t < length s"
  proof -
    fix s :: string and n t
    assume a: "function_at s = Some (n, t)"
    define r3 where "r3 = dropWhile is_space (dropWhile is_word (dropWhile is_space (drop 8 s)))"
    define r4 where "r4 = dropWhile (\<lambda>c. c \<noteq> CHR '')'') (tl r3)"
    define r5 where "r5 = dropWhile (\<lambda>c. c \<noteq> CHR ''{'') (tl r4)"
    from a have t: "t = tl r5" and ne: "r5 \<noteq> []" and pre: "prefix ''function'' s"
      unfolding function_at_def Let_def r3_def r4_def r5_def
      by (auto split: if_splits)
    have "length r3 \<le> length s"
      unfolding r3_def
      using length_dropWhile_le[of is_space "dropWhile is_word (dropWhile is_space (drop 8 s))"]
        length_dropWhile_le[of is_word "dropWhile is_space (drop 8 s)"]
        length_dropWhile_le[of is_space "drop 8 s"]
      by simp
    moreover have "length r4 \<le> length r3"
      unfolding r4_def using length_dropWhile_le[of "\<lambda>c. c \<noteq> CHR '')''" "tl r3"] by simp
    moreover have "length r5 \<le> length r4"
      unfolding r5_def using length_dropWhile_le[of "\<lambda>c. c \<noteq> CHR ''{''" "tl r4"] by simp
    moreover from ne have "length (tl r5) < length r5" by (cases r5) auto
    ultimately show "length t < length s" unfolding t by linarith
  qed
  have "\<And>s n t. function_exec s = Some (n, t) \<Longrightarrow> length t < length s"
  proof -
    fix s :: string and n t
    show "function_exec s = Some (n, t) \<Longrightarrow> length t < length s"
    proof (induction s)
      case Nil
      then show ?case by simp
    next
      case (Cons c cs)
      show ?case
      proof (cases "function_at (c # cs)")
        case None
        with Cons.prems have "function_exec cs = Some (n, t)" by simp
        from Cons.IH[OF this] show ?thesis by simp
      next
        case (Some a)
        with Cons.prems have "function_at (c # cs) = Some (n, t)" by simp
        from at[OF this] show ?thesis .
      qed
    qed
  qed
  from this[OF ex] show "(rest, content) \<in> measure length" by simp
qed

declare function_names.simps [simp del]

definition api_text :: "string \<Rightarrow> string" where
  \<open>api_text content =
     ''# API Reference'' @ newline @ newline
     @ ''## '' @ (case match_contract content of Some contractName \<Rightarrow> contractName | None \<Rightarrow> ''Contract'')
     @ newline @ newline
     @ (if function_names content \<noteq> [] then
          ''### Functions'' @ newline @ newline
          @ concat (map (\<lambda>fn. ''- `'' @ fn @ ''()`'' @ newline) (function_names content))
          @ newline
        else [])\<close>

definition generateAPIReference :: "path \<Rightarrow> path \<Rightarrow> unit io" where
  "generateAPIReference contractPath outputPath =
     io_bind (readFileSync contractPath) (\<lambda>content.
     writeFileSync (path_join outputPath ''api-reference.md'') (api_text content))"

subsection \<open>generateDocumentation\<close>

definition extractSolidityDocs :: "path \<Rightarrow> DocMetadata list io" where
  "extractSolidityDocs filePath =
     io_bind (readFileSync filePath) (\<lambda>content. ret (extractSolidityDocs_text content))"

definition extractTestDocs :: "path \<Rightarrow> DocMetadata list io" where
  "extractTestDocs filePath =
     io_bind (readFileSync filePath) (\<lambda>content. ret (extractTestDocs_text content))"

fun collect :: "('a \<Rightarrow> DocMetadata list io) \<Rightarrow> 'a list \<Rightarrow> DocMetadata list io" where
  \<comment> \<open>a \<open>forEach\<close> whose body pushes onto \<open>allDocs\<close>\<close>
  "collect f [] = ret []"
| "collect f (x # xs) =
     io_bind (f x) (\<lambda>found. io_bind (collect f xs) (\<lambda>more. ret (found @ more)))"

definition process_test_file :: "path \<Rightarrow> string \<Rightarrow> DocMetadata list io" where
  "process_test_file testDir file =
     (if endsWith file ''.test.ts'' \<or> endsWith file ''.spec.ts''
      then extractTestDocs (path_join testDir file)
      else ret [])"

definition process_contract_file :: "path \<Rightarrow> path \<Rightarrow> string \<Rightarrow> DocMetadata list io" where
  "process_contract_file contractDir docsDir file =
     (if endsWith file ''.sol'' then
        io_bind (extractSolidityDocs (path_join contractDir file)) (\<lambda>solidityDocs.
        io_bind (generateAPIReference (path_join contractDir file) docsDir) (\<lambda>_.
        ret solidityDocs))
      else ret [])"

definition generateDocumentation :: "unit io" where
  "generateDocumentation =
     io_bind process_cwd (\<lambda>here.
     io_bind (existsSync (path_join here ''docs'')) (\<lambda>docs_found.
     io_bind (if \<not> docs_found then mkdirSync_recursive (path_join here ''docs'') else ret ()) (\<lambda>_.
     io_bind (existsSync (path_join here ''test'')) (\<lambda>test_found.
     io_bind (if test_found then
                io_bind (readdirSync (path_join here ''test''))
                  (collect (process_test_file (path_join here ''test'')))
              else ret []) (\<lambda>testDocs.
     io_bind (existsSync (path_join here ''contracts'')) (\<lambda>contracts_found.
     io_bind (if contracts_found then
                io_bind (readdirSync (path_join here ''contracts''))
                  (collect (process_contract_file (path_join here ''contracts'') (path_join here ''docs'')))
              else ret []) (\<lambda>solidityDocs.
     if testDocs @ solidityDocs \<noteq> []
     then generateMarkdown (testDocs @ solidityDocs) (path_join here ''docs'')
     else ret ())))))))"

section \<open>create-category.ts\<close>

record Category =
  cat_name :: string
  cat_description :: string
  cat_examples :: "string list"
  cat_concepts :: "string list"

definition CATEGORIES :: "(string \<times> Category) list" where
  "CATEGORIES =
     [(''basic-operations'',
       \<lparr>cat_name = ''Basic Operations'',
        cat_description = ''Fundamental FHE operations and patterns'',
        cat_examples = [''encrypted-counter'', ''encrypted-arithmetic''],
        cat_concepts = [''Addition'', ''Subtraction'', ''Multiplication'', ''Storage'']\<rparr>),
      (''encryption-patterns'',
       \<lparr>cat_name = ''Encryption Patterns'',
        cat_description = ''Different approaches to encrypting data'',
        cat_examples = [''single-value-encryption'', ''multi-value-encryption''],
        cat_concepts = [''Encryption'', ''Encrypted Types'', ''Storage'', ''Permissions'']\<rparr>),
      (''access-control'',
       \<lparr>cat_name = ''Access Control'',
        cat_description = ''Managing permissions and access to encrypted data'',
        cat_examples = [''access-control-system'', ''role-based-permissions''],
        cat_concepts = [''Authorization'', ''Roles'', ''Permissions'', ''Access Grants'']\<rparr>),
      (''decryption-patterns'',
       \<lparr>cat_name = ''Decryption Patterns'',
        cat_description = ''How to decrypt and use encrypted results'',
        cat_examples = [''user-decryption'', ''public-decryption''],
        cat_concepts = [''User Decryption'', ''Public Decryption'', ''Result Publication'']\<rparr>),
      (''advanced-patterns'',
       \<lparr>cat_name = ''Advanced Patterns'',
        cat_description = ''Complex scenarios combining multiple FHE concepts'',
        cat_examples = [''inventory-management'', ''blind-auction''],
        cat_concepts = [''Complex Computations'', ''Multi-Role Systems'', ''Event Logging'',
                        ''State Management'']\<rparr>)]"

definition category_name :: "Category js_value \<Rightarrow> string option" where
  "category_name v = (case v of Own c \<Rightarrow> Some (cat_name c) | Inherited k \<Rightarrow> inherited_name k)"

definition category_description :: "Category js_value \<Rightarrow> string option" where
  "category_description v = (case v of Own c \<Rightarrow> Some (cat_description c) | Inherited k \<Rightarrow> None)"

definition category_examples :: "Category js_value \<Rightarrow> string list option" where
  "category_examples v = (case v of Own c \<Rightarrow> Some (cat_examples c) | Inherited k \<Rightarrow> None)"

definition category_concepts :: "Category js_value \<Rightarrow> string list option" where
  "category_concepts v = (case v of Own c \<Rightarrow> Some (cat_concepts c) | Inherited k \<Rightarrow> None)"

text \<open>
  \<open>generateCategoryDocs\<close>: \<open>category.concepts.forEach\<close> and \<open>category.examples.forEach\<close>
  throw a \<open>TypeError\<close> when the list is \<open>undefined\<close>.
\<close>

definition generateCategoryDocs :: "Category js_value \<Rightarrow> path \<Rightarrow> unit io" where
  "generateCategoryDocs category outputPath =
     (case category_concepts category of
        None \<Rightarrow> throw TypeError
      | Some concepts \<Rightarrow>
          (case category_examples category of
             None \<Rightarrow> throw TypeError
           | Some examples \<Rightarrow>
               writeFileSync (path_join outputPath ''CATEGORY.md'')
                 (''# '' @ String_of (category_name category) @ newline @ newline
                  @ String_of (category_description category) @ newline @ newline
                  @ ''## Concepts Covered'' @ newline @ newline
                  @ concat (map (\<lambda>concept. ''- '' @ concept @ newline) concepts)
                  @ newline
                  @ ''## Examples'' @ newline @ newline
                  @ concat (map (\<lambda>example.
                       ''- ['' @ example @ ''](../examples/'' @ example @ ''/README.md)'' @ newline) examples)
                  @ newline
                  @ ''## Learning Path'' @ newline @ newline
                  @ ''Start with the first example and work through each one to build your understanding of these concepts.''
                  @ newline)))"

definition createCategoryStructure :: "string \<Rightarrow> path \<Rightarrow> unit io" where
  "createCategoryStructure categoryKey outputDir =
     (case js_get CATEGORIES categoryKey of
        None \<Rightarrow> console_error (''Unknown category: '' @ categoryKey)
      | Some category \<Rightarrow>
          io_bind (existsSync (path_join outputDir categoryKey)) (\<lambda>found.
          io_bind (if \<not> found then mkdirSync_recursive (path_join outputDir categoryKey) else ret ()) (\<lambda>_.
          io_bind (generateCategoryDocs category (path_join outputDir categoryKey)) (\<lambda>_.
          (case category_examples category of
             None \<Rightarrow> throw TypeError
           | Some examples \<Rightarrow>
               writeFileSync (path_join (path_join outputDir categoryKey) ''README.md'')
                 (''# '' @ String_of (category_name category) @ newline @ newline
                  @ String_of (category_description category) @ newline @ newline
                  @ ''## Contents'' @ newline @ newline
                  @ concat (map (\<lambda>example. ''- ['' @ example @ '']('' @ example @ ''/)'' @ newline)
                      examples)))))))"

definition generateAllCategories :: "path \<Rightarrow> unit io" where
  "generateAllCategories outputDir =
     io_bind (forEach (\<lambda>categoryKey. createCategoryStructure categoryKey outputDir) (map fst CATEGORIES)) (\<lambda>_.
     writeFileSync (path_join outputDir ''CATEGORIES.md'')
       (''# FHEVM Example Categories'' @ newline @ newline
        @ ''This section organizes examples by learning category.'' @ newline @ newline
        @ concat (map (\<lambda>(key, category).
             ''## ['' @ cat_name category @ ''](./'' @ key @ ''/README.md)'' @ newline @ newline
             @ cat_description category @ newline @ newline) CATEGORIES)))"

text \<open>\<open>main\<close> of create-category.ts, on \<open>process.argv.slice(2)\<close>.\<close>

definition main_create_category :: "string list \<Rightarrow> unit io" where
  "main_create_category args =
     (if args = [] \<or> hd args = ''--help'' \<or> hd args = ''-h'' then ret ()
      else if hd args = ''list'' then ret ()
      else if hd args = ''create'' then
        (if length args < 2 then
           io_bind (console_error ''Error: Please specify a category name'') (\<lambda>_.
           io_bind (console_error ''Use 'list' command to see available categories'') (\<lambda>_.
           process_exit 1))
         else
           io_bind process_cwd (\<lambda>here.
           createCategoryStructure (args ! 1)
             (path_resolve here (if 2 < length args \<and> args ! 2 \<noteq> [] then args ! 2 else ''./docs/categories''))))
      else if hd args = ''create-all'' then
        io_bind process_cwd (\<lambda>here.
        io_bind (existsSync (path_resolve here
                   (if 1 < length args \<and> args ! 1 \<noteq> [] then args ! 1 else ''./docs/categories''))) (\<lambda>found.
        io_bind (if \<not> found
                 then mkdirSync_recursive (path_resolve here
                   (if 1 < length args \<and> args ! 1 \<noteq> [] then args ! 1 else ''./docs/categories''))
                 else ret ()) (\<lambda>_.
        generateAllCategories (path_resolve here
            (if 1 < length args \<and> args ! 1 \<noteq> [] then args ! 1 else ''./docs/categories'')))))
      else
        io_bind (console_error (''Unknown command: '' @ hd args)) (\<lambda>_.
        io_bind (console_error ''Use --help for usage information'') (\<lambda>_.
        process_exit 1)))"

section \<open>Predicates used in the statements\<close>

definition simple_segment :: "string \<Rightarrow> bool" where
  \<comment> \<open>a piece that \<open>path.join\<close> appends as one segment\<close>
  "simple_segment s = (CHR ''/'' \<notin> set s \<and> s \<noteq> [] \<and> s \<noteq> ''.'' \<and> s \<noteq> ''..'')"

definition doc_blocks :: "string \<Rightarrow> string list" where
  \<comment> \<open>the comment texts of the successive matches of \<open>docRegex\<close>\<close>
  "doc_blocks content = docRegex_loop (\<lambda>commentBlock. [commentBlock]) content"


definition fresh :: "path \<Rightarrow> filesystem \<Rightarrow> bool" where
  \<comment> \<open>nothing exists at \<open>P\<close> or below it\<close>
  "fresh P f = list_all (\<lambda>(q, n). \<not> prefix P q) f"

section \<open>Properties\<close>

subsection \<open>Strings\<close>

lemma split_not_Nil: "split d s \<noteq> []"
  by (induction s) (auto split: list.splits)

lemma split_no_sep: "d \<notin> set s \<Longrightarrow> split d s = [s]"
  by (induction s) auto

lemma split_append_sep:
  "d \<notin> set w \<Longrightarrow> split d (w @ d # s) = w # split d s"
  by (induction w) auto

lemma join_Cons: "ws \<noteq> [] \<Longrightarrow> join sep (w # ws) = w @ sep @ join sep ws"
  by (cases ws) simp_all

lemma split_join:
  "ws \<noteq> [] \<Longrightarrow> list_all (\<lambda>w. d \<notin> set w) ws \<Longrightarrow> split d (join [d] ws) = ws"
proof (induction ws)
  case Nil
  then show ?case by simp
next
  case (Cons w ws)
  show ?case
  proof (cases "ws = []")
    case True
    with Cons.prems show ?thesis by (simp add: split_no_sep)
  next
    case False
    with Cons show ?thesis by (simp add: join_Cons split_append_sep)
  qed
qed

lemma split_pieces_no_sep: "list_all (\<lambda>w. d \<notin> set w) (split d s)"
  using split_not_Nil[of d]
  by (induction s) (auto split: list.splits)

lemma join_Nil_concat: "join [] ws = concat ws"
proof (induction ws)
  case Nil
  then show ?case by simp
next
  case (Cons w ws)
  then show ?case by (cases "ws = []") (simp_all add: join_Cons)
qed

lemma of_char_toUpperCase:
  assumes n: "n = (of_char c :: nat)"
  shows "(of_char (toUpperCase_char c) :: nat) = (if 97 \<le> n \<and> n \<le> 122 then n - 32 else n)"
proof (cases "97 \<le> n \<and> n \<le> 122")
  case True
  then have "n - 32 < 256" by linarith
  then have m: "(n - 32) mod 256 = n - 32" by (rule mod_less)
  have "toUpperCase_char c = char_of (n - 32)"
    unfolding toUpperCase_char_def Let_def n[symmetric] using True by simp
  then have "(of_char (toUpperCase_char c) :: nat) = n - 32"
    using m by (simp only: of_char_of)
  with True show ?thesis by simp
next
  case False
  have "toUpperCase_char c = c"
    unfolding toUpperCase_char_def Let_def n[symmetric] using False by auto
  then have "(of_char (toUpperCase_char c) :: nat) = n" by (simp only: n)
  then show ?thesis by (simp only: False if_False)
qed

lemma toUpperCase_char_idem: "toUpperCase_char (toUpperCase_char c) = toUpperCase_char c"
proof -
  define n where "n = (of_char c :: nat)"
  define m where "m = (of_char (toUpperCase_char c) :: nat)"
  have 1: "m = (if 97 \<le> n \<and> n \<le> 122 then n - 32 else n)"
    unfolding m_def by (rule of_char_toUpperCase) (rule n_def)
  have 2: "(of_char (toUpperCase_char (toUpperCase_char c)) :: nat) = (if 97 \<le> m \<and> m \<le> 122 then m - 32 else m)"
    by (rule of_char_toUpperCase) (rule m_def)
  from 1 have "(if 97 \<le> m \<and> m \<le> 122 then m - 32 else m) = m"
    by (auto split: if_splits)
  with 2 have "(of_char (toUpperCase_char (toUpperCase_char c)) :: nat) = of_char (toUpperCase_char c)"
    by (simp only: m_def)
  then show ?thesis by (rule of_char_eqI)
qed

lemma toUpperCase_char_not_hyphen:
  "c \<noteq> CHR ''-'' \<Longrightarrow> toUpperCase_char c \<noteq> CHR ''-''"
proof
  assume ne: "c \<noteq> CHR ''-''" and eq: "toUpperCase_char c = CHR ''-''"
  define n where "n = (of_char c :: nat)"
  have "(of_char (CHR ''-'') :: nat) = 45" by simp
  with eq have "(of_char (toUpperCase_char c) :: nat) = 45" by (simp only:)
  then have "(if 97 \<le> n \<and> n \<le> 122 then n - 32 else n) = 45"
    using of_char_toUpperCase[OF n_def] by (simp only:)
  then have "n = 45" by (auto split: if_splits)
  then have "(of_char c :: nat) = of_char (CHR ''-'')" unfolding n_def by simp
  then have "c = CHR ''-''" by (rule of_char_eqI)
  with ne show False by simp
qed

lemma capitalize_no_hyphen: "CHR ''-'' \<notin> set w \<Longrightarrow> CHR ''-'' \<notin> set (capitalize w)"
proof (cases w)
  case Nil
  then show ?thesis by (simp add: capitalize_def)
next
  case (Cons c cs)
  assume "CHR ''-'' \<notin> set w"
  with Cons have "c \<noteq> CHR ''-''" and "CHR ''-'' \<notin> set cs" by auto
  with Cons toUpperCase_char_not_hyphen[of c] show ?thesis
    by (auto simp: capitalize_def)
qed

lemma concat_capitalize_no_hyphen:
  "list_all (\<lambda>w. CHR ''-'' \<notin> set w) ws \<Longrightarrow> CHR ''-'' \<notin> set (concat (map capitalize ws))"
proof (induction ws)
  case Nil
  then show ?case by simp
next
  case (Cons w ws)
  then show ?case using capitalize_no_hyphen[of w] by simp
qed

lemma capitalize_concat_capitalize:
  "capitalize (concat (map capitalize ws)) = concat (map capitalize ws)"
proof (induction ws)
  case Nil
  then show ?case by (simp add: capitalize_def)
next
  case (Cons w ws)
  then show ?case
    by (cases w) (simp_all add: capitalize_def toUpperCase_char_idem)
qed

lemma convertToCamelCase_concat:
  "convertToCamelCase s = concat (map capitalize (split (CHR ''-'') s))"
proof -
  have "map (\<lambda>(index, word). if index = (0::nat) then capitalize word else capitalize word)
          (enumerate n ws) = map capitalize ws" for n ws
    by (induction ws arbitrary: n) auto
  then show ?thesis
    by (simp add: convertToCamelCase_def join_Nil_concat)
qed

lemma convertToCamelCase_no_hyphen: "CHR ''-'' \<notin> set (convertToCamelCase s)"
proof -
  show ?thesis
    unfolding convertToCamelCase_concat
    by (rule concat_capitalize_no_hyphen) (rule split_pieces_no_sep)
qed

lemma convertToCamelCase_idem:
  "convertToCamelCase (convertToCamelCase s) = convertToCamelCase s"
proof -
  have "split (CHR ''-'') (convertToCamelCase s) = [convertToCamelCase s]"
    by (rule split_no_sep) (rule convertToCamelCase_no_hyphen)
  then have "convertToCamelCase (convertToCamelCase s) = capitalize (convertToCamelCase s)"
    by (simp add: convertToCamelCase_concat[of "convertToCamelCase s"])
  then show ?thesis
    by (simp add: convertToCamelCase_concat[of s] capitalize_concat_capitalize)
qed

subsection \<open>The display-identifier transform\<close>

text \<open>
  Claim C3. \<open>convertToCamelCase\<close> is a total function on strings and is idempotent. On
  a kebab-case input, that is the segments \<open>ws\<close> (at least one, none holding a hyphen)
  joined by hyphens, the result is the segments concatenated with no separator, each
  with its first character upper-cased: a segment keeps its length and every character
  after the first, and a lower-case ASCII letter in front becomes the upper-case one.
  For example \<open>encrypted-counter\<close> gives \<open>EncryptedCounter\<close>.
\<close>

theorem convertToCamelCase_kebab:
  "convertToCamelCase (convertToCamelCase s) = convertToCamelCase s
   \<and> (ws \<noteq> [] \<and> list_all (\<lambda>w. CHR ''-'' \<notin> set w) ws \<longrightarrow>
        convertToCamelCase (join ''-'' ws) = concat (map capitalize ws))
   \<and> length (capitalize w) = length w
   \<and> drop 1 (capitalize w) = drop 1 w
   \<and> (w \<noteq> [] \<longrightarrow> hd (capitalize w) = toUpperCase_char (hd w))
   \<and> map toUpperCase_char ''abcdefghijklmnopqrstuvwxyz'' = ''ABCDEFGHIJKLMNOPQRSTUVWXYZ''
   \<and> convertToCamelCase ''encrypted-counter'' = ''EncryptedCounter''"
proof -
  have idem: "convertToCamelCase (convertToCamelCase s) = convertToCamelCase s"
    by (rule convertToCamelCase_idem)
  have kebab: "ws \<noteq> [] \<and> list_all (\<lambda>w. CHR ''-'' \<notin> set w) ws \<longrightarrow>
        convertToCamelCase (join ''-'' ws) = concat (map capitalize ws)"
    by (simp add: convertToCamelCase_concat split_join)
  have shape: "length (capitalize w) = length w \<and> drop 1 (capitalize w) = drop 1 w
      \<and> (w \<noteq> [] \<longrightarrow> hd (capitalize w) = toUpperCase_char (hd w))"
    by (cases w) (simp_all add: capitalize_def)
  have upper: "map toUpperCase_char ''abcdefghijklmnopqrstuvwxyz'' = ''ABCDEFGHIJKLMNOPQRSTUVWXYZ''"
    by code_simp
  have ex: "convertToCamelCase ''encrypted-counter'' = ''EncryptedCounter''"
    by code_simp
  from idem kebab shape upper ex show ?thesis by blast
qed

theorem convertToCamelCase_kebab_witness:
  "[''user'', ''decryption''] \<noteq> []
   \<and> list_all (\<lambda>w. CHR ''-'' \<notin> set w) [''user'', ''decryption'']
   \<and> convertToCamelCase (join ''-'' [''user'', ''decryption'']) = ''UserDecryption''
   \<and> ''user'' \<noteq> [] \<and> hd (capitalize ''user'') = CHR ''U''"
proof -
  have u: "toUpperCase_char (CHR ''u'') = CHR ''U''" by code_simp
  have c: "concat (map capitalize [''user'', ''decryption'']) = ''UserDecryption''" by code_simp
  show ?thesis
    using convertToCamelCase_kebab[of "''x''" "[''user'', ''decryption'']" "''user''"] u c
    by simp
qed

subsection \<open>The file system\<close>

lemma io_bind_Inr: "m w = (Inr x, w') \<Longrightarrow> io_bind m f w = f x w'"
  by (simp add: io_bind_def)

lemma io_bind_Inl: "m w = (Inl a, w') \<Longrightarrow> io_bind m f w = (Inl a, w')"
  by (simp add: io_bind_def)

lemma path_join_simple: "simple_segment s \<Longrightarrow> path_join base s = base @ [s]"
  by (simp add: path_join_def simple_segment_def split_no_sep seg_step_def)

lemma stat_append:
  "p \<noteq> [] \<Longrightarrow> stat (f @ g) p = (case map_of f p of None \<Rightarrow> map_of g p | Some n \<Rightarrow> Some n)"
  by (simp add: stat_def map_add_def split: option.splits)

lemma fresh_map_of: "fresh P f \<Longrightarrow> map_of f (P @ r) = None"
proof -
  assume fr: "fresh P f"
  have "P @ r \<notin> fst ` set f"
  proof
    assume "P @ r \<in> fst ` set f"
    then obtain n where "(P @ r, n) \<in> set f" by auto
    with fr have "\<not> prefix P (P @ r)" by (auto simp: fresh_def list_all_iff)
    then show False by simp
  qed
  then show ?thesis by (simp add: map_of_eq_None_iff)
qed

lemma mkdir_from_existing:
  "list_all (\<lambda>q. stat f (base @ q) = Some Directory) (prefixes ss) \<Longrightarrow>
   mkdir_from base (ss @ rest) f = mkdir_from (base @ ss) rest f"
proof (induction ss arbitrary: base)
  case Nil
  then show ?case by simp
next
  case (Cons s ss)
  from Cons.prems have here: "stat f (base @ [s]) = Some Directory"
    and below: "list_all (\<lambda>q. stat f ((base @ [s]) @ q) = Some Directory) (prefixes ss)"
    by (auto simp: list_all_iff)
  from Cons.IH[OF below] here show ?case by simp
qed

lemma stat_append_keep:
  "stat f q = Some n \<Longrightarrow> stat (f @ g) q = Some n"
  by (simp add: stat_def map_add_def split: if_splits)

lemma prefixes_append_keep:
  "list_all (\<lambda>q. stat f q = Some Directory) (prefixes dir) \<Longrightarrow>
   list_all (\<lambda>q. stat (f @ g) ([] @ q) = Some Directory) (prefixes dir)"
  by (simp add: list_all_iff stat_append_keep)

lemma mkdir_under:
  "list_all (\<lambda>q. stat f q = Some Directory) (prefixes dir) \<Longrightarrow>
   mkdir_from [] (dir @ rest) (f @ g) = mkdir_from dir rest (f @ g)"
  using mkdir_from_existing[where f="f @ g" and base="[]" and ss=dir and rest=rest]
    prefixes_append_keep[of f dir g] by simp

lemma catalog_names_simple:
  "list_all (\<lambda>k. simple_segment (convertToCamelCase k)
               \<and> simple_segment (convertToCamelCase k @ ''.sol'')
               \<and> simple_segment (convertToCamelCase k @ ''.test.ts''))
     (map fst EXAMPLE_CATEGORIES)"
  by code_simp

lemma contract_defined: "\<exists>t. generateContractTemplate (Some n) c = Inr t"
  by (simp add: generateContractTemplate_def)

lemma readme_defined: "\<exists>t. readmeContent (Own cfg) = Inr t"
  by (simp add: readmeContent_def config_features_def)

lemma path_join_workflows: "path_join P ''.github/workflows'' = P @ [''.github'', ''workflows'']"
  by (simp add: path_join_def seg_step_def)

lemma simple_literals:
  "simple_segment ''contracts''" "simple_segment ''test''" "simple_segment ''deploy''"
  "simple_segment ''tasks''" "simple_segment ''scripts''" "simple_segment ''docs''"
  "simple_segment ''.vscode''" "simple_segment ''hardhat.config.ts''"
  "simple_segment ''tsconfig.json''" "simple_segment ''package.json''" "simple_segment ''README.md''"
  by (simp_all add: simple_segment_def)

lemma scaffold:
  assumes k: "js_get EXAMPLE_CATEGORIES k = Some v"
    and N: "simple_segment N" "simple_segment (N @ ''.sol'')" "simple_segment (N @ ''.test.ts'')"
    and NN: "N = convertToCamelCase k"
    and dir: "list_all (\<lambda>q. stat (fs w) q = Some Directory) (prefixes dir)"
    and fr: "fresh (dir @ [N]) (fs w)"
    and c: "generateContractTemplate (config_name v) (config_category v) = Inr contract"
  shows "generateExample k dir w =
     (case readmeContent v of
        Inl e \<Rightarrow>
          (Inl (Throw e), w\<lparr>fs := fs w @
            [(dir @ [N], Directory),
             (dir @ [N, ''contracts''], Directory),
             (dir @ [N, ''test''], Directory),
             (dir @ [N, ''deploy''], Directory),
             (dir @ [N, ''tasks''], Directory),
             (dir @ [N, ''scripts''], Directory),
             (dir @ [N, ''docs''], Directory),
             (dir @ [N, ''.github''], Directory),
             (dir @ [N, ''.github'', ''workflows''], Directory),
             (dir @ [N, ''.vscode''], Directory),
             (dir @ [N, ''contracts'', N @ ''.sol''], File contract),
             (dir @ [N, ''test'', N @ ''.test.ts''], File (generateTestTemplate N)),
             (dir @ [N, ''hardhat.config.ts''], File generateHardhatConfigTemplate),
             (dir @ [N, ''tsconfig.json''], File tsconfig_json),
             (dir @ [N, ''package.json''], File (packageJson_json k (config_description v)))]\<rparr>)
      | Inr readme \<Rightarrow>
          (Inr (), w\<lparr>fs := fs w @
            [(dir @ [N], Directory),
             (dir @ [N, ''contracts''], Directory),
             (dir @ [N, ''test''], Directory),
             (dir @ [N, ''deploy''], Directory),
             (dir @ [N, ''tasks''], Directory),
             (dir @ [N, ''scripts''], Directory),
             (dir @ [N, ''docs''], Directory),
             (dir @ [N, ''.github''], Directory),
             (dir @ [N, ''.github'', ''workflows''], Directory),
             (dir @ [N, ''.vscode''], Directory),
             (dir @ [N, ''contracts'', N @ ''.sol''], File contract),
             (dir @ [N, ''test'', N @ ''.test.ts''], File (generateTestTemplate N)),
             (dir @ [N, ''hardhat.config.ts''], File generateHardhatConfigTemplate),
             (dir @ [N, ''tsconfig.json''], File tsconfig_json),
             (dir @ [N, ''package.json''], File (packageJson_json k (config_description v))),
             (dir @ [N, ''README.md''], File readme)]\<rparr>))"
proof -
  have fr': "\<And>g r. map_of (fs w @ g) (dir @ N # r) = map_of g (dir @ N # r)"
    using fresh_map_of[OF fr] by (simp add: map_add_def)
  have fr0: "\<And>r. map_of (fs w) (dir @ N # r) = None"
    using fresh_map_of[OF fr] by simp
  have mk: "\<And>rest g. mkdir_from [] (dir @ rest) (fs w @ g) = mkdir_from dir rest (fs w @ g)"
    by (rule mkdir_under[OF dir])
  have mk0: "\<And>rest. mkdir_from [] (dir @ rest) (fs w) = mkdir_from dir rest (fs w)"
    using mkdir_under[OF dir, where g="[]"] by simp
  show ?thesis
    unfolding generateExample_def k NN[symmetric]
    by (simp add: Let_def path_join_simple N simple_literals path_join_workflows
        createProjectStructure_def project_dirs_def io_bind_def existsSync_def
        mkdirSync_recursive_def mk mk0 fr' fr0 stat_def ret_def throw_def
        writeFileSync_def fs_put_def try_js_def c butlast_append
        split: sum.splits del: map_of_append)
qed

lemma camel_counter: "convertToCamelCase ''encrypted-counter'' = ''EncryptedCounter''"
  by code_simp

lemma prefix_before_sep:
  assumes "d \<notin> set s"
  shows "prefix s (xs @ d # ys) = prefix s xs"
proof
  assume "prefix s (xs @ d # ys)"
  then consider "prefix s xs" | us where "s = xs @ us" "prefix us (d # ys)"
    by (auto simp: prefix_append)
  then show "prefix s xs"
  proof cases
    case 1
    then show ?thesis .
  next
    case 2
    with assms show ?thesis by (cases us) auto
  qed
next
  assume "prefix s xs"
  then show "prefix s (xs @ d # ys)" by (rule prefix_prefix)
qed

lemma includes_str_across_sep:
  assumes "d \<notin> set s" and "s \<noteq> []"
  shows "includes_str (l @ d # rest) s = (includes_str l s \<or> includes_str rest s)"
proof (induction l)
  case Nil
  from assms have "\<not> prefix s (d # rest)" by (cases s) auto
  with assms show ?case by simp
next
  case (Cons c l)
  have "prefix s ((c # l) @ d # rest) = prefix s (c # l)"
    by (rule prefix_before_sep) (rule assms)
  with Cons show ?case by auto
qed

lemma includes_str_unlines:
  assumes "CHR 0x0A \<notin> set s" and "s \<noteq> []"
  shows "includes_str (unlines ls) s = list_ex (\<lambda>l. includes_str l s) ls"
proof (induction ls)
  case Nil
  with assms show ?case by (simp add: unlines_def)
next
  case (Cons l ls)
  have "unlines (l # ls) = l @ CHR 0x0A # unlines ls"
    by (simp add: unlines_def newline_def)
  with Cons includes_str_across_sep[OF assms] show ?case by simp
qed

lemma contract_counter_lacks_name:
  "case generateContractTemplate (Some ''Encrypted Counter'') (Some ''basic'') of
     Inl e \<Rightarrow> False
   | Inr c \<Rightarrow> \<not> includes_str c ''EncryptedCounter''
       \<and> includes_str c ''contract Encrypted Counter is ZamaEthereumConfig''"
proof -
  have 1: "convertToCamelCase ''Encrypted Counter'' = ''Encrypted Counter''" by code_simp
  show ?thesis
    unfolding generateContractTemplate_def
    by (simp add: includes_str_unlines String_of_def 1)
qed

subsection \<open>The project written by generateExample\<close>

text \<open>
  Claim C2. For a key of the example catalog, an output directory that exists, and
  nothing yet at the project path (the output directory joined with the display
  identifier of the key), \<open>generateExample\<close> returns and adds to the file system exactly:
  the project directory, named by the display identifier; the eight seed directories
  (the workflow directory \<open>.github/workflows\<close> with its parent \<open>.github\<close>); and the six
  files \<open>contracts/<Name>.sol\<close>, \<open>test/<Name>.test.ts\<close>, \<open>hardhat.config.ts\<close>,
  \<open>tsconfig.json\<close>, \<open>package.json\<close> and \<open>README.md\<close>. Nothing else changes.
\<close>

theorem generateExample_scaffolds_project:
  assumes key: "k \<in> set (map fst EXAMPLE_CATEGORIES)"
    and dir: "list_all (\<lambda>q. stat (fs w) q = Some Directory) (prefixes dir)"
    and fr: "fresh (dir @ [convertToCamelCase k]) (fs w)"
  shows "\<exists>cfg contract readme.
     map_of EXAMPLE_CATEGORIES k = Some cfg
     \<and> generateContractTemplate (Some (cfg_name cfg)) (Some (cfg_category cfg)) = Inr contract
     \<and> readmeContent (Own cfg) = Inr readme
     \<and> generateExample k dir w =
     (Inr (), w\<lparr>fs := fs w @
        [(dir @ [convertToCamelCase k], Directory),
         (dir @ [convertToCamelCase k, ''contracts''], Directory),
         (dir @ [convertToCamelCase k, ''test''], Directory),
         (dir @ [convertToCamelCase k, ''deploy''], Directory),
         (dir @ [convertToCamelCase k, ''tasks''], Directory),
         (dir @ [convertToCamelCase k, ''scripts''], Directory),
         (dir @ [convertToCamelCase k, ''docs''], Directory),
         (dir @ [convertToCamelCase k, ''.github''], Directory),
         (dir @ [convertToCamelCase k, ''.github'', ''workflows''], Directory),
         (dir @ [convertToCamelCase k, ''.vscode''], Directory),
         (dir @ [convertToCamelCase k, ''contracts'', convertToCamelCase k @ ''.sol''], File contract),
         (dir @ [convertToCamelCase k, ''test'', convertToCamelCase k @ ''.test.ts''],
            File (generateTestTemplate (convertToCamelCase k))),
         (dir @ [convertToCamelCase k, ''hardhat.config.ts''], File generateHardhatConfigTemplate),
         (dir @ [convertToCamelCase k, ''tsconfig.json''], File tsconfig_json),
         (dir @ [convertToCamelCase k, ''package.json''],
            File (packageJson_json k (Some (cfg_description cfg)))),
         (dir @ [convertToCamelCase k, ''README.md''], File readme)]\<rparr>)"
proof -
  from key obtain cfg where cfg: "map_of EXAMPLE_CATEGORIES k = Some cfg"
    by (metis map_of_eq_None_iff not_Some_eq set_map)
  obtain contract where c: "generateContractTemplate (Some (cfg_name cfg)) (Some (cfg_category cfg)) = Inr contract"
    using contract_defined by blast
  obtain readme where r: "readmeContent (Own cfg) = Inr readme"
    using readme_defined by blast
  from key catalog_names_simple
  have N: "simple_segment (convertToCamelCase k)" "simple_segment (convertToCamelCase k @ ''.sol'')"
      "simple_segment (convertToCamelCase k @ ''.test.ts'')"
    by (auto simp: list_all_iff)
  have v: "js_get EXAMPLE_CATEGORIES k = Some (Own cfg)"
    by (simp add: js_get_def cfg)
  have c': "generateContractTemplate (config_name (Own cfg)) (config_category (Own cfg)) = Inr contract"
    using c by (simp add: config_name_def config_category_def)
  from scaffold[OF v N refl dir fr c'] cfg c r show ?thesis
    by (simp add: config_description_def)
qed

lemma camel_user: "convertToCamelCase ''user-decryption'' = ''UserDecryption''"
  by code_simp

theorem generateExample_scaffolds_project_witness:
  "''user-decryption'' \<in> set (map fst EXAMPLE_CATEGORIES)
   \<and> list_all (\<lambda>q. stat [([''out''], Directory)] q = Some Directory) (prefixes [''out''])
   \<and> fresh ([''out''] @ [convertToCamelCase ''user-decryption'']) [([''out''], Directory)]
   \<and> fst (generateExample ''user-decryption'' [''out'']
            \<lparr>fs = [([''out''], Directory)], cwd = [], stderr = []\<rparr>) = Inr ()
   \<and> map fst (fs (snd (generateExample ''user-decryption'' [''out'']
            \<lparr>fs = [([''out''], Directory)], cwd = [], stderr = []\<rparr>))) =
       [[''out''],
        [''out'', ''UserDecryption''],
        [''out'', ''UserDecryption'', ''contracts''],
        [''out'', ''UserDecryption'', ''test''],
        [''out'', ''UserDecryption'', ''deploy''],
        [''out'', ''UserDecryption'', ''tasks''],
        [''out'', ''UserDecryption'', ''scripts''],
        [''out'', ''UserDecryption'', ''docs''],
        [''out'', ''UserDecryption'', ''.github''],
        [''out'', ''UserDecryption'', ''.github'', ''workflows''],
        [''out'', ''UserDecryption'', ''.vscode''],
        [''out'', ''UserDecryption'', ''contracts'', ''UserDecryption.sol''],
        [''out'', ''UserDecryption'', ''test'', ''UserDecryption.test.ts''],
        [''out'', ''UserDecryption'', ''hardhat.config.ts''],
        [''out'', ''UserDecryption'', ''tsconfig.json''],
        [''out'', ''UserDecryption'', ''package.json''],
        [''out'', ''UserDecryption'', ''README.md'']]"
proof -
  have key: "''user-decryption'' \<in> set (map fst EXAMPLE_CATEGORIES)"
    by (simp add: EXAMPLE_CATEGORIES_def)
  have dir: "list_all (\<lambda>q. stat (fs \<lparr>fs = [([''out''], Directory)], cwd = [], stderr = []\<rparr>) q = Some Directory) (prefixes [''out''])"
    by (simp add: stat_def)
  have fr: "fresh ([''out''] @ [convertToCamelCase ''user-decryption''])
              (fs \<lparr>fs = [([''out''], Directory)], cwd = [], stderr = []\<rparr>)"
    by (simp add: fresh_def camel_user)
  from generateExample_scaffolds_project[OF key dir fr] key dir fr
  show ?thesis by (auto simp: camel_user)
qed

subsection \<open>The contract written by generateExample\<close>

lemma test_template_uses_factory:
  \<open>includes_str (generateTestTemplate ''EncryptedCounter'') ''getContractFactory("EncryptedCounter")''\<close>
  unfolding generateTestTemplate_def
  by (simp add: includes_str_unlines)

text \<open>
  Claim C1, at the key \<open>encrypted-counter\<close> in an empty working directory. The run
  returns; the test file asks the contract factory for \<open>EncryptedCounter\<close>, the display
  identifier of the key; the contract file \<open>contracts/EncryptedCounter.sol\<close> does not hold
  that identifier anywhere: the template is given the entry's name \<open>Encrypted Counter\<close>,
  not the key, and declares \<open>contract Encrypted Counter\<close>.
\<close>

theorem generateExample_contract_lacks_identifier:
  \<open>case generateExample ''encrypted-counter'' [] \<lparr>fs = [], cwd = [], stderr = []\<rparr> of
     (r, w') \<Rightarrow>
       r = Inr ()
       \<and> (case map_of (fs w') [''EncryptedCounter'', ''test'', ''EncryptedCounter.test.ts''] of
            Some (File test) \<Rightarrow> includes_str test ''getContractFactory("EncryptedCounter")''
          | _ \<Rightarrow> False)
       \<and> (case map_of (fs w') [''EncryptedCounter'', ''contracts'', ''EncryptedCounter.sol''] of
            Some (File contract) \<Rightarrow>
              \<not> includes_str contract (convertToCamelCase ''encrypted-counter'')
              \<and> includes_str contract ''contract Encrypted Counter is ZamaEthereumConfig''
          | _ \<Rightarrow> False)\<close>
proof -
  define cfg where "cfg = \<lparr>cfg_name = ''Encrypted Counter'',
        cfg_description = ''Basic FHE counter demonstrating simple encrypted arithmetic'',
        cfg_category = ''basic'',
        cfg_features = [''addition'', ''subtraction'', ''encryption'']\<rparr>"
  have v: "js_get EXAMPLE_CATEGORIES ''encrypted-counter'' = Some (Own cfg)"
    by (simp add: js_get_def EXAMPLE_CATEGORIES_def cfg_def)
  obtain contract where c: "generateContractTemplate (Some ''Encrypted Counter'') (Some ''basic'') = Inr contract"
    using contract_defined by blast
  with contract_counter_lacks_name
  have lacks: "\<not> includes_str contract ''EncryptedCounter''"
    and has: "includes_str contract ''contract Encrypted Counter is ZamaEthereumConfig''"
    by simp_all
  have c': "generateContractTemplate (config_name (Own cfg)) (config_category (Own cfg)) = Inr contract"
    using c by (simp add: config_name_def config_category_def cfg_def)
  obtain readme where r: "readmeContent (Own cfg) = Inr readme"
    using readme_defined by blast
  have N: "simple_segment ''EncryptedCounter''" "simple_segment (''EncryptedCounter'' @ ''.sol'')"
    "simple_segment (''EncryptedCounter'' @ ''.test.ts'')"
    by (simp_all add: simple_segment_def)
  have dir: "list_all (\<lambda>q. stat (fs \<lparr>fs = [], cwd = [], stderr = []\<rparr>) q = Some Directory) (prefixes [])"
    by (simp add: stat_def)
  have fr: "fresh ([] @ [''EncryptedCounter'']) (fs \<lparr>fs = [], cwd = [], stderr = []\<rparr>)"
    by (simp add: fresh_def)
  from scaffold[OF v N camel_counter[symmetric] dir fr c'] r lacks has test_template_uses_factory
  show ?thesis by (simp add: camel_counter)
qed

subsection \<open>Keys that are not in a catalog\<close>

lemma generateExample_unknown_key:
  assumes "map_of EXAMPLE_CATEGORIES k = None" and "k \<notin> set Object_prototype_keys"
  shows "generateExample k dir w =
     (Inl (Exit 1),
      w\<lparr>stderr := stderr w @
         [''Unknown example: '' @ k,
          ''Available examples: encrypted-counter, access-control, encrypted-arithmetic, user-decryption, public-decryption'']\<rparr>)"
proof -
  have "join '', '' (map fst EXAMPLE_CATEGORIES) =
      ''encrypted-counter, access-control, encrypted-arithmetic, user-decryption, public-decryption''"
    by (simp add: EXAMPLE_CATEGORIES_def)
  with assms show ?thesis
    by (simp add: generateExample_def js_get_def io_bind_def console_error_def process_exit_def)
qed

lemma createCategoryStructure_unknown_key:
  assumes "map_of CATEGORIES k = None" and "k \<notin> set Object_prototype_keys"
  shows "createCategoryStructure k dir w = (Inr (), w\<lparr>stderr := stderr w @ [''Unknown category: '' @ k]\<rparr>)"
  using assms by (simp add: createCategoryStructure_def js_get_def console_error_def)

text \<open>
  Claim C4, at the key \<open>constructor\<close>. It is not a key of the example catalog, yet
  \<open>EXAMPLE_CATEGORIES["constructor"]\<close> is the inherited \<open>Object\<close> function, so the guard
  does not fire: nothing is reported, the directories and five files are written
  under \<open>Constructor\<close>, and the run ends at the \<open>TypeError\<close> of \<open>config.features.map\<close>.
\<close>

theorem generateExample_constructor_key:
  "map_of EXAMPLE_CATEGORIES ''constructor'' = None
   \<and> (case generateExample ''constructor'' [] \<lparr>fs = [], cwd = [], stderr = []\<rparr> of
        (r, w') \<Rightarrow>
          r = Inl (Throw TypeError)
          \<and> stderr w' = []
          \<and> map fst (fs w') =
              [[''Constructor''],
               [''Constructor'', ''contracts''],
               [''Constructor'', ''test''],
               [''Constructor'', ''deploy''],
               [''Constructor'', ''tasks''],
               [''Constructor'', ''scripts''],
               [''Constructor'', ''docs''],
               [''Constructor'', ''.github''],
               [''Constructor'', ''.github'', ''workflows''],
               [''Constructor'', ''.vscode''],
               [''Constructor'', ''contracts'', ''Constructor.sol''],
               [''Constructor'', ''test'', ''Constructor.test.ts''],
               [''Constructor'', ''hardhat.config.ts''],
               [''Constructor'', ''tsconfig.json''],
               [''Constructor'', ''package.json'']])"
proof -
  have absent: "map_of EXAMPLE_CATEGORIES ''constructor'' = None"
    by (simp add: EXAMPLE_CATEGORIES_def)
  then have v: "js_get EXAMPLE_CATEGORIES ''constructor'' = Some (Inherited ''constructor'')"
    by (simp add: js_get_def Object_prototype_keys_def)
  have camel: "convertToCamelCase ''constructor'' = ''Constructor''" by code_simp
  obtain contract where
    "generateContractTemplate (Some ''Object'') None = Inr contract"
    using contract_defined by blast
  then have c: "generateContractTemplate (config_name (Inherited ''constructor''))
      (config_category (Inherited ''constructor'')) = Inr contract"
    by (simp add: config_name_def config_category_def inherited_name_def)
  have N: "simple_segment ''Constructor''" "simple_segment (''Constructor'' @ ''.sol'')"
    "simple_segment (''Constructor'' @ ''.test.ts'')"
    by (simp_all add: simple_segment_def)
  have dir: "list_all (\<lambda>q. stat (fs \<lparr>fs = [], cwd = [], stderr = []\<rparr>) q = Some Directory) (prefixes [])"
    by (simp add: stat_def)
  have fr: "fresh ([] @ [''Constructor'']) (fs \<lparr>fs = [], cwd = [], stderr = []\<rparr>)"
    by (simp add: fresh_def)
  have r: "readmeContent (Inherited ''constructor'') = Inl TypeError"
    by (simp add: readmeContent_def config_features_def)
  from scaffold[OF v N camel[symmetric] dir fr c] r absent
  show ?thesis by simp
qed

text \<open>
  Claim C5, at the key \<open>constructor\<close>. It is not a key of the category catalog, yet
  \<open>CATEGORIES["constructor"]\<close> is the inherited \<open>Object\<close> function: nothing is reported,
  the directory \<open>constructor\<close> is made, and the call does not return: it ends at the
  \<open>TypeError\<close> of \<open>category.concepts.forEach\<close>, and the process with status 1.
\<close>

theorem createCategoryStructure_constructor_key:
  "map_of CATEGORIES ''constructor'' = None
   \<and> createCategoryStructure ''constructor'' [''docs'']
        \<lparr>fs = [([''docs''], Directory)], cwd = [], stderr = []\<rparr> =
      (Inl (Throw TypeError),
       \<lparr>fs = [([''docs''], Directory), ([''docs'', ''constructor''], Directory)],
        cwd = [], stderr = []\<rparr>)
   \<and> exit_status (fst (main_create_category [''create'', ''constructor'', ''docs'']
        \<lparr>fs = [([''docs''], Directory)], cwd = [], stderr = []\<rparr>)) = 1"
proof -
  have absent: "map_of CATEGORIES ''constructor'' = None"
    by (simp add: CATEGORIES_def)
  then have v: "js_get CATEGORIES ''constructor'' = Some (Inherited ''constructor'')"
    by (simp add: js_get_def Object_prototype_keys_def)
  have p: "path_join [''docs''] ''constructor'' = [''docs'', ''constructor'']"
    by (simp add: path_join_simple simple_segment_def)
  have run: "createCategoryStructure ''constructor'' [''docs'']
        \<lparr>fs = [([''docs''], Directory)], cwd = [], stderr = []\<rparr> =
      (Inl (Throw TypeError),
       \<lparr>fs = [([''docs''], Directory), ([''docs'', ''constructor''], Directory)],
        cwd = [], stderr = []\<rparr>)"
    by (simp add: createCategoryStructure_def v p io_bind_def existsSync_def stat_def
        mkdirSync_recursive_def generateCategoryDocs_def category_concepts_def throw_def)
  have d: "path_resolve [] ''docs'' = [''docs'']"
    by (simp add: path_resolve_def path_join_simple simple_segment_def)
  have "main_create_category [''create'', ''constructor'', ''docs'']
        \<lparr>fs = [([''docs''], Directory)], cwd = [], stderr = []\<rparr> =
      createCategoryStructure ''constructor'' [''docs'']
        \<lparr>fs = [([''docs''], Directory)], cwd = [], stderr = []\<rparr>"
    by (simp add: main_create_category_def io_bind_def process_cwd_def d)
  with run absent show ?thesis by (simp add: exit_status_def)
qed

subsection \<open>Leftmost matches\<close>

text \<open>
  Every search of the script is the same loop: try the pattern at the start of the text,
  and go on one character further when it does not match there. The result is the match
  at the first position where the pattern matches.
\<close>

lemma leftmost_Some:
  assumes nil: "f [] = None"
    and step: "\<And>c cs. f (c # cs) = (case at (c # cs) of Some m \<Rightarrow> Some m | None \<Rightarrow> f cs)"
  shows "f s = Some r \<longleftrightarrow> (\<exists>n<length s. at (drop n s) = Some r \<and> (\<forall>m<n. at (drop m s) = None))"
proof (induction s)
  case Nil
  then show ?case by (simp add: nil)
next
  case (Cons c cs)
  show ?case
  proof (cases "at (c # cs)")
    case None
    have "(\<exists>n<length (c # cs). at (drop n (c # cs)) = Some r \<and> (\<forall>m<n. at (drop m (c # cs)) = None))
        \<longleftrightarrow> (\<exists>n<length cs. at (drop n cs) = Some r \<and> (\<forall>m<n. at (drop m cs) = None))"
    proof
      assume "\<exists>n<length (c # cs). at (drop n (c # cs)) = Some r \<and> (\<forall>m<n. at (drop m (c # cs)) = None)"
      then obtain n where n: "n < length (c # cs)" "at (drop n (c # cs)) = Some r"
        "\<forall>m<n. at (drop m (c # cs)) = None" by blast
      from n(2) None obtain k where k: "n = Suc k" by (cases n) auto
      have "\<forall>m<k. at (drop m cs) = None"
      proof (intro allI impI)
        fix m assume "m < k"
        then have "Suc m < n" using k by simp
        with n(3) have "at (drop (Suc m) (c # cs)) = None" by blast
        then show "at (drop m cs) = None" by simp
      qed
      with n(1,2) k show "\<exists>n<length cs. at (drop n cs) = Some r \<and> (\<forall>m<n. at (drop m cs) = None)"
        by (intro exI[of _ k]) simp
    next
      assume "\<exists>n<length cs. at (drop n cs) = Some r \<and> (\<forall>m<n. at (drop m cs) = None)"
      then obtain k where k: "k < length cs" "at (drop k cs) = Some r" "\<forall>m<k. at (drop m cs) = None"
        by blast
      have "\<forall>m<Suc k. at (drop m (c # cs)) = None"
      proof (intro allI impI)
        fix m assume "m < Suc k"
        with None k(3) show "at (drop m (c # cs)) = None" by (cases m) auto
      qed
      with k(1,2) show "\<exists>n<length (c # cs). at (drop n (c # cs)) = Some r \<and> (\<forall>m<n. at (drop m (c # cs)) = None)"
        by (intro exI[of _ "Suc k"]) simp
    qed
    with None Cons.IH show ?thesis by (simp add: step)
  next
    case (Some a)
    have "(\<exists>n<length (c # cs). at (drop n (c # cs)) = Some r \<and> (\<forall>m<n. at (drop m (c # cs)) = None))
        \<longleftrightarrow> a = r"
    proof
      assume "\<exists>n<length (c # cs). at (drop n (c # cs)) = Some r \<and> (\<forall>m<n. at (drop m (c # cs)) = None)"
      then obtain n where n: "at (drop n (c # cs)) = Some r" "\<forall>m<n. at (drop m (c # cs)) = None"
        by blast
      show "a = r"
      proof (cases n)
        case 0
        with n(1) Some show ?thesis by simp
      next
        case (Suc k)
        with n(2) have "at (drop 0 (c # cs)) = None" by blast
        with Some show ?thesis by simp
      qed
    next
      assume "a = r"
      with Some show "\<exists>n<length (c # cs). at (drop n (c # cs)) = Some r \<and> (\<forall>m<n. at (drop m (c # cs)) = None)"
        by (intro exI[of _ 0]) simp
    qed
    with Some show ?thesis by (simp add: step)
  qed
qed

lemma leftmost_None:
  assumes nil: "f [] = None"
    and step: "\<And>c cs. f (c # cs) = (case at (c # cs) of Some m \<Rightarrow> Some m | None \<Rightarrow> f cs)"
  shows "f s = None \<longleftrightarrow> (\<forall>n<length s. at (drop n s) = None)"
proof (induction s)
  case Nil
  then show ?case by (simp add: nil)
next
  case (Cons c cs)
  have "(\<forall>n<length (c # cs). at (drop n (c # cs)) = None)
      \<longleftrightarrow> at (c # cs) = None \<and> (\<forall>n<length cs. at (drop n cs) = None)"
  proof (intro iffI conjI allI impI)
    assume a: "\<forall>n<length (c # cs). at (drop n (c # cs)) = None"
    then have "at (drop 0 (c # cs)) = None" by (metis length_greater_0_conv list.distinct(1))
    then show "at (c # cs) = None" by simp
    fix n assume "n < length cs"
    then have "Suc n < length (c # cs)" by simp
    with a have "at (drop (Suc n) (c # cs)) = None" by blast
    then show "at (drop n cs) = None" by simp
  next
    fix n assume a: "at (c # cs) = None \<and> (\<forall>n<length cs. at (drop n cs) = None)" and "n < length (c # cs)"
    then show "at (drop n (c # cs)) = None" by (cases n) auto
  qed
  with Cons.IH show ?case by (cases "at (c # cs)") (simp_all add: step)
qed

subsection \<open>Test declarations and comment blocks\<close>

lemma prefix_includes_str: "prefix p s \<Longrightarrow> includes_str s p"
  by (cases s) auto

lemma includes_str_Cons: "includes_str cs p \<Longrightarrow> includes_str (c # cs) p"
  by simp

lemma includes_str_append_left: "includes_str s p \<Longrightarrow> includes_str (a @ s) p"
  by (induction a) auto

lemma it_at_Some:
  assumes "it_at s = Some title"
  shows "title \<noteq> [] \<and> CHR 0x22 \<notin> set title
    \<and> (\<exists>rest. s = ''it('' @ [CHR 0x22] @ title @ [CHR 0x22] @ rest)"
proof -
  define r where "r = drop 4 s"
  from assms have pre: "prefix (''it('' @ [CHR 0x22]) s"
    and t: "title = takeWhile (\<lambda>c. c \<noteq> CHR 0x22) r"
    and ne: "title \<noteq> []"
    and dr: "dropWhile (\<lambda>c. c \<noteq> CHR 0x22) r \<noteq> []"
    unfolding it_at_def r_def by (auto split: if_splits)
  from pre have s: "s = ''it('' @ [CHR 0x22] @ r"
    unfolding r_def by (auto simp: prefix_def)
  from dr have "hd (dropWhile (\<lambda>c. c \<noteq> CHR 0x22) r) = CHR 0x22"
    using hd_dropWhile[of "\<lambda>c. c \<noteq> CHR 0x22" r] by simp
  with dr obtain rest where d: "dropWhile (\<lambda>c. c \<noteq> CHR 0x22) r = CHR 0x22 # rest"
    by (cases "dropWhile (\<lambda>c. c \<noteq> CHR 0x22) r") auto
  have "r = title @ dropWhile (\<lambda>c. c \<noteq> CHR 0x22) r"
    unfolding t by simp
  with d have r: "r = title @ CHR 0x22 # rest" by simp
  have "CHR 0x22 \<notin> set title"
    unfolding t by (auto dest: set_takeWhileD)
  with ne s r show ?thesis by auto
qed

lemma match_it_Some:
  "match_it t = Some title \<Longrightarrow>
     title \<noteq> [] \<and> CHR 0x22 \<notin> set title
     \<and> includes_str t (''it('' @ [CHR 0x22] @ title @ [CHR 0x22])"
proof (induction t)
  case Nil
  then show ?case by simp
next
  case (Cons c cs)
  show ?case
  proof (cases "it_at (c # cs)")
    case None
    with Cons.prems have "match_it cs = Some title" by simp
    from Cons.IH[OF this] show ?thesis by simp
  next
    case (Some a)
    with Cons.prems have at: "it_at (c # cs) = Some title" by simp
    from it_at_Some[OF at] obtain rest where
      "title \<noteq> []" "CHR 0x22 \<notin> set title"
      "c # cs = (''it('' @ [CHR 0x22] @ title @ [CHR 0x22]) @ rest" by auto
    moreover from this(3) have "prefix (''it('' @ [CHR 0x22] @ title @ [CHR 0x22]) (c # cs)"
      by (metis prefixI)
    ultimately show ?thesis using prefix_includes_str by blast
  qed
qed

lemma it_at_here:
  assumes "title \<noteq> []" and "CHR 0x22 \<notin> set title"
  shows "it_at (''it('' @ [CHR 0x22] @ title @ [CHR 0x22] @ b) = Some title"
proof -
  have tw: "takeWhile (\<lambda>c. c \<noteq> CHR 0x22) (title @ CHR 0x22 # b) = title"
    using assms(2) by (subst takeWhile_append2) auto
  have dw: "dropWhile (\<lambda>c. c \<noteq> CHR 0x22) (title @ CHR 0x22 # b) = CHR 0x22 # b"
    using assms(2) by (subst dropWhile_append2) auto
  show ?thesis
    using assms(1) by (simp add: it_at_def tw dw)
qed

lemma it_at_not_prefix: \<open>\<not> prefix ''it("'' s \<Longrightarrow> it_at s = None\<close>
  unfolding it_at_def by simp

lemma it_at_None_before:
  assumes "\<not> includes_str (c # a) (''it('' @ [CHR 0x22])"
  shows "it_at (c # a @ ''it('' @ [CHR 0x22] @ rest) = None"
proof -
  from assms have np: "\<not> prefix (''it('' @ [CHR 0x22]) (c # a)" by simp
  have "\<not> prefix (''it('' @ [CHR 0x22]) ((c # a) @ (''it('' @ [CHR 0x22] @ rest))"
  proof
    assume "prefix (''it('' @ [CHR 0x22]) ((c # a) @ (''it('' @ [CHR 0x22] @ rest))"
    with np obtain us where us: "''it('' @ [CHR 0x22] = (c # a) @ us"
      and pre: "prefix us (''it('' @ [CHR 0x22] @ rest)"
      unfolding prefix_append by blast
    from us have "us = [] \<or> us = [CHR 0x22] \<or> us = [CHR ''('', CHR 0x22]
        \<or> us = [CHR ''t'', CHR ''('', CHR 0x22]"
      by (auto simp: Cons_eq_append_conv)
    with pre have "us = []" by auto
    with us np show False by simp
  qed
  then have \<open>\<not> prefix ''it("'' (c # a @ ''it('' @ [CHR 0x22] @ rest)\<close> by simp
  then show ?thesis by (rule it_at_not_prefix)
qed

lemma match_it_found:
  assumes "\<not> includes_str a (''it('' @ [CHR 0x22])" and "title \<noteq> []" and "CHR 0x22 \<notin> set title"
  shows "match_it (a @ ''it('' @ [CHR 0x22] @ title @ [CHR 0x22] @ b) = Some title"
  using assms(1)
proof (induction a)
  case Nil
  from it_at_here[OF assms(2,3), of b] show ?case by simp
next
  case (Cons c a)
  from Cons.prems have "\<not> includes_str a (''it('' @ [CHR 0x22])" by simp
  from Cons.IH[OF this] it_at_None_before[OF Cons.prems, of "title @ [CHR 0x22] @ b"]
  show ?case by simp
qed

lemma match_it_None: "\<not> includes_str t (''it('' @ [CHR 0x22]) \<Longrightarrow> match_it t = None"
proof (induction t)
  case Nil
  then show ?case by simp
next
  case (Cons c cs)
  from Cons.prems have np: "\<not> prefix (''it('' @ [CHR 0x22]) (c # cs)"
    and "\<not> includes_str cs (''it('' @ [CHR 0x22])" by simp_all
  from Cons.IH[OF this(2)] have "match_it cs = None" .
  moreover from np have \<open>\<not> prefix ''it("'' (c # cs)\<close> by simp
  then have "it_at (c # cs) = None" by (rule it_at_not_prefix)
  ultimately show ?case by simp
qed

lemma includes_str_shorter: "includes_str t (p @ q) \<Longrightarrow> includes_str t p"
proof (induction t)
  case Nil
  then show ?case by simp
next
  case (Cons c cs)
  then show ?case by (auto dest: append_prefixD)
qed

lemma test_record_Some:
  "test_record block (Some t) =
     (case match_it t of
        None \<Rightarrow> []
      | Some title \<Rightarrow>
          [\<lparr>doc_name = title,
            doc_category = tag_field ''@category'' block,
            doc_chapter = tag_field ''@chapter'' block,
            doc_description =
              (case match_tag ''@description'' block of None \<Rightarrow> [] | Some d \<Rightarrow> trim d)\<rparr>])"
proof (cases "match_it t")
  case None
  then show ?thesis by (simp add: test_record_def)
next
  case (Some title)
  from match_it_Some[OF this] have "includes_str t (''it('' @ [CHR 0x22] @ title @ [CHR 0x22])" by simp
  then have "includes_str t (''it('' @ [CHR 0x22])"
    using includes_str_shorter[of t "''it('' @ [CHR 0x22]" "title @ [CHR 0x22]"] by simp
  moreover from this have "t \<noteq> []" by auto
  ultimately show ?thesis using Some by (simp add: test_record_def)
qed

lemma scan_skip:
  "list_all (\<lambda>x. \<not> includes_str x ''/**'') skipped \<Longrightarrow>
   scan_comment_lines body (skipped @ ls) = scan_comment_lines body ls"
  by (induction skipped) auto

lemma scan_block:
  assumes op: "includes_str (hd (pre @ [closing])) ''/**''"
    and inside: "list_all (\<lambda>x. \<not> includes_str x ''*/'') pre"
    and cl: "includes_str closing ''*/''"
  shows "scan_comment_lines body (pre @ closing # rest) =
     body (concat (map (\<lambda>x. x @ newline) pre) @ closing)
       (case rest of [] \<Rightarrow> None | testLine # _ \<Rightarrow> Some testLine)
     @ scan_comment_lines body rest"
proof -
  have dw: "dropWhile (\<lambda>x. \<not> includes_str x ''*/'') (pre @ closing # rest) = closing # rest"
    using inside cl by (subst dropWhile_append2) (auto simp: list_all_iff)
  have tw: "takeWhile (\<lambda>x. \<not> includes_str x ''*/'') (pre @ closing # rest) = pre"
    using inside cl by (subst takeWhile_append2) (auto simp: list_all_iff)
  obtain l ls where l: "pre @ closing # rest = l # ls" by (cases pre) auto
  then have "l = hd (pre @ [closing])" by (cases pre) auto
  with op have "includes_str l ''/**''" by simp
  then have "scan_comment_lines body (l # ls) =
      (case dropWhile (\<lambda>x. \<not> includes_str x ''*/'') (l # ls) of
           [] \<Rightarrow>
             body
               (concat (map (\<lambda>x. x @ newline) (takeWhile (\<lambda>x. \<not> includes_str x ''*/'') (l # ls)))
                  @ ''undefined'')
               None
         | closing # after \<Rightarrow>
             body
               (concat (map (\<lambda>x. x @ newline) (takeWhile (\<lambda>x. \<not> includes_str x ''*/'') (l # ls)))
                  @ closing)
               (case after of [] \<Rightarrow> None | testLine # _ \<Rightarrow> Some testLine)
             @ scan_comment_lines body after)"
    by simp
  then show ?thesis unfolding l[symmetric] dw tw by simp
qed

lemma extractTestDocs_text_lines:
  assumes "ls \<noteq> []" and "list_all (\<lambda>l. CHR 0x0A \<notin> set l) ls"
  shows "extractTestDocs_text (join newline ls) = scan_comment_lines test_record ls"
  using split_join[OF assms] by (simp add: extractTestDocs_text_def newline_def)

lemma it_at_iff:
  \<open>it_at s = Some found \<longleftrightarrow>
     found \<noteq> [] \<and> CHR 0x22 \<notin> set found \<and> prefix (''it("'' @ found @ ''"'') s\<close>
proof
  assume "it_at s = Some found"
  from it_at_Some[OF this] obtain rest where
    "found \<noteq> []" "CHR 0x22 \<notin> set found" "s = (''it('' @ [CHR 0x22] @ found @ [CHR 0x22]) @ rest"
    by auto
  then show \<open>found \<noteq> [] \<and> CHR 0x22 \<notin> set found \<and> prefix (''it("'' @ found @ ''"'') s\<close>
    by (auto simp: prefix_def)
next
  assume a: \<open>found \<noteq> [] \<and> CHR 0x22 \<notin> set found \<and> prefix (''it("'' @ found @ ''"'') s\<close>
  then obtain rest where "s = ''it('' @ [CHR 0x22] @ found @ [CHR 0x22] @ rest"
    by (auto simp: prefix_def)
  with a it_at_here[of found rest] show "it_at s = Some found" by simp
qed

lemma it_at_Nil: "it_at [] = None"
  by (simp add: it_at_def)

lemma match_it_leftmost:
  "match_it s = Some found \<longleftrightarrow>
     (\<exists>n. it_at (drop n s) = Some found \<and> (\<forall>m<n. it_at (drop m s) = None))"
proof -
  have "match_it s = Some found \<longleftrightarrow>
      (\<exists>n<length s. it_at (drop n s) = Some found \<and> (\<forall>m<n. it_at (drop m s) = None))"
    by (rule leftmost_Some) simp_all
  moreover have "n < length s" if "it_at (drop n s) = Some found" for n
  proof (rule ccontr)
    assume "\<not> n < length s"
    then have "drop n s = []" by simp
    with that it_at_Nil show False by simp
  qed
  ultimately show ?thesis by blast
qed

lemma match_it_nowhere: "match_it s = None \<longleftrightarrow> (\<forall>n. it_at (drop n s) = None)"
proof -
  have "match_it s = None \<longleftrightarrow> (\<forall>n<length s. it_at (drop n s) = None)"
    by (rule leftmost_None) simp_all
  moreover have "it_at (drop n s) = None" if "\<not> n < length s" for n
    using that by (simp add: it_at_Nil)
  ultimately show ?thesis by blast
qed

text \<open>
  Claim C6 fails on three lines after a comment block. A test declaration whose quoted
  first argument is empty gives no record. A title that holds an escaped double quote is
  cut before the backslash's quote. A line that is no test declaration but holds the text
  \<open>it("\<close>, as a call of \<open>submit\<close>, gives a record.
\<close>

theorem extractTestDocs_quoted_argument_cases:
  \<open>extractTestDocs_text (''/**'' @ newline @ '' * @category basic'' @ newline @ '' */'' @ newline
       @ ''it("", f);'') = []
   \<and> extractTestDocs_text (''/**'' @ newline @ '' * @category basic'' @ newline @ '' */'' @ newline
       @ ''it("returns '' @ [CHR 0x5C] @ ''"ok'' @ [CHR 0x5C] @ ''" now", f);'') =
     [\<lparr>doc_name = ''returns '' @ [CHR 0x5C], doc_category = ''basic'', doc_chapter = ''general'',
       doc_description = []\<rparr>]
   \<and> extractTestDocs_text (''/**'' @ newline @ '' * @category basic'' @ newline @ '' */'' @ newline
       @ ''submit("order");'') =
     [\<lparr>doc_name = ''order'', doc_category = ''basic'', doc_chapter = ''general'',
       doc_description = []\<rparr>]\<close>
proof -
  define b where "b = ''/**'' @ newline @ '' * @category basic'' @ newline @ '' */''"
  define t1 where \<open>t1 = ''it("", f);''\<close>
  define t2 where \<open>t2 = ''it("returns '' @ [CHR 0x5C] @ ''"ok'' @ [CHR 0x5C] @ ''" now", f);''\<close>
  define t3 where \<open>t3 = ''submit("order");''\<close>
  have l: "split (CHR 0x0A) (''/**'' @ newline @ '' * @category basic'' @ newline @ '' */'' @ newline @ t)
      = [''/**'', '' * @category basic'', '' */'', t]" if "split (CHR 0x0A) t = [t]" for t
    using that by (simp add: newline_def)
  have s1: "split (CHR 0x0A) t1 = [t1]" unfolding t1_def by code_simp
  have s2: "split (CHR 0x0A) t2 = [t2]" unfolding t2_def by code_simp
  have s3: "split (CHR 0x0A) t3 = [t3]" unfolding t3_def by code_simp
  have sc: "scan_comment_lines test_record [''/**'', '' * @category basic'', '' */'', t] =
      test_record b (Some t)" if "\<not> includes_str t ''/**''" for t
    unfolding b_def
    using scan_block[of "[''/**'', '' * @category basic'']" "'' */''" test_record "[t]"] that
    by (simp add: newline_def)
  have n1: "\<not> includes_str t1 ''/**''" unfolding t1_def by code_simp
  have n2: "\<not> includes_str t2 ''/**''" unfolding t2_def by code_simp
  have n3: "\<not> includes_str t3 ''/**''" unfolding t3_def by code_simp
  have cat: "tag_field ''@category'' b = ''basic''" unfolding b_def by code_simp
  have chap: "tag_field ''@chapter'' b = ''general''" unfolding b_def by code_simp
  have desc: "match_tag ''@description'' b = None" unfolding b_def by code_simp
  have m1: "match_it t1 = None" unfolding t1_def by code_simp
  have m2: "match_it t2 = Some (''returns '' @ [CHR 0x5C])" unfolding t2_def by code_simp
  have m3: "match_it t3 = Some ''order''" unfolding t3_def by code_simp
  have r1: "extractTestDocs_text (''/**'' @ newline @ '' * @category basic'' @ newline @ '' */'' @ newline @ t1) = []"
    by (simp only: extractTestDocs_text_def l[OF s1] sc[OF n1] test_record_Some m1 option.case)
  have r2: "extractTestDocs_text (''/**'' @ newline @ '' * @category basic'' @ newline @ '' */'' @ newline @ t2) =
     [\<lparr>doc_name = ''returns '' @ [CHR 0x5C], doc_category = ''basic'', doc_chapter = ''general'',
       doc_description = []\<rparr>]"
    by (simp only: extractTestDocs_text_def l[OF s2] sc[OF n2] test_record_Some m2 option.case cat chap desc)
  have r3: "extractTestDocs_text (''/**'' @ newline @ '' * @category basic'' @ newline @ '' */'' @ newline @ t3) =
     [\<lparr>doc_name = ''order'', doc_category = ''basic'', doc_chapter = ''general'',
       doc_description = []\<rparr>]"
    by (simp only: extractTestDocs_text_def l[OF s3] sc[OF n3] test_record_Some m3 option.case cat chap desc)
  from r1 r2 r3 show ?thesis unfolding t1_def t2_def t3_def by simp
qed

text \<open>
  Claim C6, amended. A test file is scanned line by line (first part). Lines without the
  opening marker are passed over (second part). A comment block, from a line holding the
  opening marker to the first line holding the closing marker, yields exactly one record
  when the line right after the closing line has a match of \<open>it\("([^"]+)"\<close>, and no
  record otherwise, also when no line follows; the scan goes on from that following line
  (third part). The match is the leftmost one: the title is the group at the first
  position of the line where the pattern matches (fourth part), and there is no match
  exactly when the pattern matches at no position (fifth part). The pattern matches at a
  position exactly when the text there is \<open>it("\<close>, at least one character other than the
  double quote, and a double quote; the group is the text between, unchanged (sixth
  part). So an empty quoted argument gives no record, a title ends before the first
  double quote, escaped or not, and any line holding such a text counts, test declaration
  or not.
\<close>

theorem extractTestDocs_record_iff_match:
  \<open>(ls \<noteq> [] \<and> list_all (\<lambda>l. CHR 0x0A \<notin> set l) ls \<longrightarrow>
      extractTestDocs_text (join newline ls) = scan_comment_lines test_record ls)
   \<and> (list_all (\<lambda>x. \<not> includes_str x ''/**'') skipped \<longrightarrow>
      scan_comment_lines test_record (skipped @ later) = scan_comment_lines test_record later)
   \<and> (includes_str (hd (pre @ [closing])) ''/**''
        \<and> list_all (\<lambda>x. \<not> includes_str x ''*/'') pre
        \<and> includes_str closing ''*/'' \<longrightarrow>
      scan_comment_lines test_record (pre @ closing # rest) =
        (case rest of
           [] \<Rightarrow> []
         | testLine # _ \<Rightarrow>
             (case match_it testLine of
                None \<Rightarrow> []
              | Some title \<Rightarrow>
                  [\<lparr>doc_name = title,
                    doc_category = tag_field ''@category'' (concat (map (\<lambda>x. x @ newline) pre) @ closing),
                    doc_chapter = tag_field ''@chapter'' (concat (map (\<lambda>x. x @ newline) pre) @ closing),
                    doc_description =
                      (case match_tag ''@description'' (concat (map (\<lambda>x. x @ newline) pre) @ closing) of
                         None \<Rightarrow> []
                       | Some d \<Rightarrow> trim d)\<rparr>]))
        @ scan_comment_lines test_record rest)
   \<and> (match_it line = Some found \<longleftrightarrow>
        (\<exists>n. it_at (drop n line) = Some found \<and> (\<forall>m<n. it_at (drop m line) = None)))
   \<and> (match_it line = None \<longleftrightarrow> (\<forall>n. it_at (drop n line) = None))
   \<and> (it_at s = Some quoted \<longleftrightarrow>
        quoted \<noteq> [] \<and> CHR 0x22 \<notin> set quoted \<and> prefix (''it("'' @ quoted @ ''"'') s)\<close>
proof -
  have 1: "ls \<noteq> [] \<and> list_all (\<lambda>l. CHR 0x0A \<notin> set l) ls \<longrightarrow>
      extractTestDocs_text (join newline ls) = scan_comment_lines test_record ls"
    using extractTestDocs_text_lines by blast
  have 2: "list_all (\<lambda>x. \<not> includes_str x ''/**'') skipped \<longrightarrow>
      scan_comment_lines test_record (skipped @ later) = scan_comment_lines test_record later"
    using scan_skip by blast
  have 3: "includes_str (hd (pre @ [closing])) ''/**''
        \<and> list_all (\<lambda>x. \<not> includes_str x ''*/'') pre
        \<and> includes_str closing ''*/'' \<longrightarrow>
      scan_comment_lines test_record (pre @ closing # rest) =
        (case rest of
           [] \<Rightarrow> []
         | testLine # _ \<Rightarrow>
             (case match_it testLine of
                None \<Rightarrow> []
              | Some title \<Rightarrow>
                  [\<lparr>doc_name = title,
                    doc_category = tag_field ''@category'' (concat (map (\<lambda>x. x @ newline) pre) @ closing),
                    doc_chapter = tag_field ''@chapter'' (concat (map (\<lambda>x. x @ newline) pre) @ closing),
                    doc_description =
                      (case match_tag ''@description'' (concat (map (\<lambda>x. x @ newline) pre) @ closing) of
                         None \<Rightarrow> []
                       | Some d \<Rightarrow> trim d)\<rparr>]))
        @ scan_comment_lines test_record rest"
  proof (cases rest)
    case Nil
    then show ?thesis by (simp add: scan_block test_record_def)
  next
    case (Cons t ts)
    then show ?thesis by (simp add: scan_block test_record_Some)
  qed
  have 4: "match_it line = Some found \<longleftrightarrow>
        (\<exists>n. it_at (drop n line) = Some found \<and> (\<forall>m<n. it_at (drop m line) = None))"
    by (rule match_it_leftmost)
  have 5: "match_it line = None \<longleftrightarrow> (\<forall>n. it_at (drop n line) = None)"
    by (rule match_it_nowhere)
  have 6: \<open>it_at s = Some quoted \<longleftrightarrow>
        quoted \<noteq> [] \<and> CHR 0x22 \<notin> set quoted \<and> prefix (''it("'' @ quoted @ ''"'') s\<close>
    by (rule it_at_iff)
  from 1 2 3 4 5 6 show ?thesis by blast
qed

theorem extractTestDocs_record_iff_match_witness:
  \<open>prefix (''it("'' @ ''should deploy, ok!'' @ ''"'') (drop 2 ''  it("should deploy, ok!", f);'')
   \<and> it_at (drop 2 ''  it("should deploy, ok!", f);'') = Some ''should deploy, ok!''
   \<and> it_at (drop 0 ''  it("should deploy, ok!", f);'') = None
   \<and> it_at (drop 1 ''  it("should deploy, ok!", f);'') = None
   \<and> match_it ''  it("should deploy, ok!", f);'' = Some ''should deploy, ok!''
   \<and> match_it ''  const x = 1;'' = None
   \<and> extractTestDocs_text (join newline
        [''describe("X", function () {'', ''  /**'', ''   * @category basic'', ''   */'',
         ''  it("should deploy, ok!", f);'', ''});'']) =
       [\<lparr>doc_name = ''should deploy, ok!'', doc_category = ''basic'', doc_chapter = ''general'',
         doc_description = []\<rparr>]
   \<and> extractTestDocs_text (join newline
        [''  /**'', ''   * @category basic'', ''   */'', ''  const x = 1;'',
         ''  it("should deploy, ok!", f);'', ''});'']) = []\<close>
proof -
  define line where \<open>line = ''  it("should deploy, ok!", f);''\<close>
  define other where \<open>other = ''  const x = 1;''\<close>
  define ls1 where \<open>ls1 = [''describe("X", function () {'', ''  /**'', ''   * @category basic'', ''   */'',
         line, ''});'']\<close>
  define ls2 where \<open>ls2 = [''  /**'', ''   * @category basic'', ''   */'', other, line, ''});'']\<close>
  define blk where \<open>blk = concat (map (\<lambda>x. x @ newline) [''  /**'', ''   * @category basic'']) @ ''   */''\<close>
  have p: \<open>''should deploy, ok!'' \<noteq> [] \<and> CHR 0x22 \<notin> set ''should deploy, ok!''
      \<and> prefix (''it("'' @ ''should deploy, ok!'' @ ''"'') (drop 2 line)\<close>
    unfolding line_def by simp
  note Q = extractTestDocs_record_iff_match[where s = "drop 2 line" and quoted = "''should deploy, ok!''"
      and line = line and found = "''should deploy, ok!''"]
  from Q p have at2: "it_at (drop 2 line) = Some ''should deploy, ok!''" by blast
  have np0: \<open>\<not> prefix (''it("'' @ q @ ''"'') (drop 0 line)\<close> for q
    unfolding line_def by simp
  have np1: \<open>\<not> prefix (''it("'' @ q @ ''"'') (drop 1 line)\<close> for q
    unfolding line_def by simp
  have at0: "it_at (drop 0 line) = None"
  proof (cases "it_at (drop 0 line)")
    case (Some q)
    with extractTestDocs_record_iff_match[where s = "drop 0 line" and quoted = q] np0[of q]
    show ?thesis by blast
  qed simp
  have at1: "it_at (drop 1 line) = None"
  proof (cases "it_at (drop 1 line)")
    case (Some q)
    with extractTestDocs_record_iff_match[where s = "drop 1 line" and quoted = q] np1[of q]
    show ?thesis by blast
  qed simp
  have before: "\<forall>m<2. it_at (drop m line) = None"
  proof (intro allI impI)
    fix m :: nat assume "m < 2"
    then consider "m = 0" | "m = 1" by linarith
    then show "it_at (drop m line) = None" using at0 at1 by cases simp_all
  qed
  from Q at2 before have m: "match_it line = Some ''should deploy, ok!''" by blast
  have no: \<open>\<not> prefix (''it("'' @ q @ ''"'') (drop n other)\<close> for q n
  proof -
    have \<open>\<not> includes_str other ''it("''\<close> unfolding other_def by code_simp
    moreover have \<open>includes_str other ''it("''\<close> if \<open>prefix (''it("'' @ q @ ''"'') (drop n other)\<close>
    proof -
      from that have \<open>prefix ''it("'' (drop n other)\<close> by (auto simp: prefix_def)
      then have \<open>includes_str (drop n other) ''it("''\<close> by (rule prefix_includes_str)
      then have \<open>includes_str (take n other @ drop n other) ''it("''\<close>
        by (rule includes_str_append_left)
      then show ?thesis by simp
    qed
    ultimately show ?thesis by blast
  qed
  have "\<forall>n. it_at (drop n other) = None"
  proof
    fix n
    show "it_at (drop n other) = None"
    proof (cases "it_at (drop n other)")
      case (Some q)
      with extractTestDocs_record_iff_match[where s = "drop n other" and quoted = q] no[of q n]
      show ?thesis by blast
    qed simp
  qed
  with extractTestDocs_record_iff_match[where line = other] have m': "match_it other = None"
    by blast
  have h1: \<open>ls1 \<noteq> [] \<and> list_all (\<lambda>l. CHR 0x0A \<notin> set l) ls1\<close>
    unfolding ls1_def line_def by simp
  have h1': \<open>ls2 \<noteq> [] \<and> list_all (\<lambda>l. CHR 0x0A \<notin> set l) ls2\<close>
    unfolding ls2_def line_def other_def by simp
  have h2: \<open>list_all (\<lambda>x. \<not> includes_str x ''/**'') [''describe("X", function () {'']\<close>
    by simp
  have h3: \<open>includes_str (hd ([''  /**'', ''   * @category basic''] @ [''   */''])) ''/**''
   \<and> list_all (\<lambda>x. \<not> includes_str x ''*/'') [''  /**'', ''   * @category basic'']
   \<and> includes_str ''   */'' ''*/''\<close>
    by simp
  have tail: \<open>scan_comment_lines test_record [line, ''});''] = []\<close>
    unfolding line_def by simp
  have tail': \<open>scan_comment_lines test_record [other, line, ''});''] = []\<close>
    unfolding line_def other_def by simp
  have cat: \<open>tag_field ''@category'' blk = ''basic''\<close> unfolding blk_def by code_simp
  have chap: \<open>tag_field ''@chapter'' blk = ''general''\<close> unfolding blk_def by code_simp
  have desc: \<open>match_tag ''@description'' blk = None\<close> unfolding blk_def by code_simp
  note A = extractTestDocs_record_iff_match[
      where ls = ls1 and skipped = \<open>[''describe("X", function () {'']\<close>
      and later = \<open>[''  /**'', ''   * @category basic'', ''   */'', line, ''});'']\<close>
      and pre = \<open>[''  /**'', ''   * @category basic'']\<close>
      and closing = \<open>''   */''\<close> and rest = \<open>[line, ''});'']\<close>]
  note B = extractTestDocs_record_iff_match[
      where ls = ls2 and pre = \<open>[''  /**'', ''   * @category basic'']\<close>
      and closing = \<open>''   */''\<close> and rest = \<open>[other, line, ''});'']\<close>]
  from A h1 h2 h3 m tail cat chap desc have
    r1: \<open>extractTestDocs_text (join newline ls1) =
       [\<lparr>doc_name = ''should deploy, ok!'', doc_category = ''basic'', doc_chapter = ''general'',
         doc_description = []\<rparr>]\<close>
    unfolding ls1_def blk_def by simp
  from B h1' h3 m' tail' have r2: \<open>extractTestDocs_text (join newline ls2) = []\<close>
    unfolding ls2_def by simp
  from p at2 at0 at1 m m' r1 r2 show ?thesis
    unfolding ls1_def ls2_def line_def other_def by simp
qed

subsection \<open>Tags and comment blocks of a contract\<close>

lemma tag_backtrack_Some:
  "tag_backtrack k r = Some cap \<Longrightarrow>
     cap \<noteq> [] \<and> list_all (\<lambda>c. \<not> is_line_terminator c) cap"
proof (induction k)
  case 0
  then show ?case by simp
next
  case (Suc k)
  show ?case
  proof (cases "takeWhile (\<lambda>c. \<not> is_line_terminator c) (drop (Suc k) r) = []")
    case True
    with Suc.prems have "tag_backtrack k r = Some cap" by simp
    from Suc.IH[OF this] show ?thesis .
  next
    case False
    with Suc.prems have "cap = takeWhile (\<lambda>c. \<not> is_line_terminator c) (drop (Suc k) r)" by simp
    with False show ?thesis by (auto simp: list_all_iff dest: set_takeWhileD)
  qed
qed

lemma match_tag_Some:
  "match_tag tag block = Some cap \<Longrightarrow>
     cap \<noteq> [] \<and> list_all (\<lambda>c. \<not> is_line_terminator c) cap \<and> includes_str block tag"
proof (induction block)
  case Nil
  then show ?case by simp
next
  case (Cons c cs)
  show ?case
  proof (cases "prefix tag (c # cs) \<and> tag_rest (drop (length tag) (c # cs)) \<noteq> None")
    case True
    with Cons.prems have "tag_rest (drop (length tag) (c # cs)) = Some cap"
      by (auto split: option.splits)
    from tag_backtrack_Some[OF this[unfolded tag_rest_def]] True show ?thesis by simp
  next
    case False
    with Cons.prems have "match_tag tag cs = Some cap"
      by (auto split: option.splits if_splits)
    from Cons.IH[OF this] show ?thesis by simp
  qed
qed

lemma match_tag_absent: "\<not> includes_str block tag \<Longrightarrow> match_tag tag block = None"
  using match_tag_Some[of tag block] by (cases "match_tag tag block") auto



lemma docRegex_loop_blocks:
  "docRegex_loop body content = concat (map body (docRegex_loop (\<lambda>b. [b]) content))"
proof (induction body content rule: docRegex_loop.induct)
  case (1 body content)
  show ?case
  proof (cases "docRegex_exec content")
    case None
    then have "docRegex_loop body content = []" "docRegex_loop (\<lambda>b. [b]) content = []"
      by (subst docRegex_loop.simps, simp)+
    then show ?thesis by simp
  next
    case (Some m)
    obtain b kw rest where m: "m = (b, kw, rest)" by (cases m) auto
    from "1.IH"[OF Some[unfolded m] refl refl]
    have IH: "docRegex_loop body rest = concat (map body (docRegex_loop (\<lambda>b. [b]) rest))" .
    have "docRegex_loop body content = body b @ docRegex_loop body rest"
      using Some m by (subst docRegex_loop.simps) simp
    moreover have "docRegex_loop (\<lambda>b. [b]) content = b # docRegex_loop (\<lambda>b. [b]) rest"
      using Some m by (subst docRegex_loop.simps) simp
    ultimately show ?thesis using IH by simp
  qed
qed


lemma keyword_at_Some:
  assumes "keyword_at r = Some (kw, rest)"
  shows "\<exists>ws. r = ws @ kw @ rest \<and> list_all is_space ws \<and> (kw = ''contract'' \<or> kw = ''function'')"
proof -
  have split: "r = takeWhile is_space r @ dropWhile is_space r" by simp
  have ws: "list_all is_space (takeWhile is_space r)"
    by (auto simp: list_all_iff dest: set_takeWhileD)
  from assms consider
    (c) "prefix ''contract'' (dropWhile is_space r)" "kw = ''contract''" "rest = drop 8 (dropWhile is_space r)"
  | (f) "prefix ''function'' (dropWhile is_space r)" "kw = ''function''" "rest = drop 8 (dropWhile is_space r)"
    by (auto simp: keyword_at_def split: if_splits)
  then show ?thesis
  proof cases
    case c
    then have "dropWhile is_space r = kw @ rest" by (auto simp: prefix_def)
    with split ws c(2) show ?thesis by metis
  next
    case f
    then have "dropWhile is_space r = kw @ rest" by (auto simp: prefix_def)
    with split ws f(2) show ?thesis by metis
  qed
qed

lemma lazy_body_Some:
  "lazy_body s = Some (block, kw, rest) \<Longrightarrow>
     \<exists>ws. s = block @ ''*/'' @ ws @ kw @ rest \<and> list_all is_space ws
          \<and> (kw = ''contract'' \<or> kw = ''function'')"
proof (induction s arbitrary: block)
  case Nil
  then show ?case by simp
next
  case (Cons c cs)
  show ?case
  proof (cases "if prefix ''*/'' (c # cs) then keyword_at (drop 2 (c # cs)) else None")
    case None
    with Cons.prems obtain b' where b': "lazy_body cs = Some (b', kw, rest)" and "block = c # b'"
      by (auto split: option.splits)
    from Cons.IH[OF b'] \<open>block = c # b'\<close> show ?thesis by auto
  next
    case (Some a)
    with Cons.prems have k: "keyword_at (drop 2 (c # cs)) = Some (kw, rest)"
      and p: "prefix ''*/'' (c # cs)" and "block = []"
      by (auto split: if_splits)
    from p have "c # cs = ''*/'' @ drop 2 (c # cs)" by (auto simp: prefix_def)
    with keyword_at_Some[OF k] \<open>block = []\<close> show ?thesis by (metis append_Nil)
  qed
qed

lemma docRegex_exec_Some:
  "docRegex_exec s = Some (block, kw, rest) \<Longrightarrow>
     \<exists>before ws. s = before @ ''/**'' @ newline @ block @ ''*/'' @ ws @ kw @ rest
          \<and> list_all is_space ws \<and> (kw = ''contract'' \<or> kw = ''function'')"
proof (induction s)
  case Nil
  then show ?case by simp
next
  case (Cons c cs)
  show ?case
  proof (cases "if prefix (''/**'' @ newline) (c # cs) then lazy_body (drop 4 (c # cs)) else None")
    case None
    with Cons.prems have "docRegex_exec cs = Some (block, kw, rest)" by simp
    from Cons.IH[OF this] obtain before ws where
      "cs = before @ ''/**'' @ newline @ block @ ''*/'' @ ws @ kw @ rest"
      "list_all is_space ws" "kw = ''contract'' \<or> kw = ''function''" by blast
    then have "c # cs = (c # before) @ ''/**'' @ newline @ block @ ''*/'' @ ws @ kw @ rest"
      by simp
    with \<open>list_all is_space ws\<close> \<open>kw = ''contract'' \<or> kw = ''function''\<close> show ?thesis by blast
  next
    case (Some a)
    with Cons.prems have l: "lazy_body (drop 4 (c # cs)) = Some (block, kw, rest)"
      and p: "prefix (''/**'' @ newline) (c # cs)"
      by (auto split: if_splits)
    from p have "c # cs = (''/**'' @ newline) @ drop 4 (c # cs)"
      by (auto simp: prefix_def newline_def)
    with lazy_body_Some[OF l] show ?thesis by (metis append_Nil append_assoc)
  qed
qed

lemma doc_blocks_unfold:
  "doc_blocks content =
     (case docRegex_exec content of None \<Rightarrow> [] | Some (block, kw, rest) \<Rightarrow> block # doc_blocks rest)"
  unfolding doc_blocks_def
  by (subst docRegex_loop.simps) (simp split: option.splits)

lemma solidity_record_fields:
  "r \<in> set (solidity_record b) \<Longrightarrow>
     doc_category r = tag_field ''@category'' b \<and> doc_chapter r = tag_field ''@chapter'' b
     \<and> doc_description r = (case match_tag ''@notice'' b of None \<Rightarrow> [] | Some d \<Rightarrow> trim d)"
  by (auto simp: solidity_record_def split: option.splits)


lemma docRegex_loop_None: "docRegex_exec content = None \<Longrightarrow> docRegex_loop body content = []"
  by (subst docRegex_loop.simps) simp

lemma docRegex_loop_Some:
  "docRegex_exec content = Some (block, kw, rest) \<Longrightarrow>
     docRegex_loop body content = body block @ docRegex_loop body rest"
  by (subst docRegex_loop.simps) simp

lemma takeWhile_nonempty_iff: "takeWhile P xs \<noteq> [] \<longleftrightarrow> xs \<noteq> [] \<and> P (hd xs)"
  by (cases xs) auto

lemma tag_backtrack_iff:
  "tag_backtrack k r = Some cap \<longleftrightarrow>
     (\<exists>j. 0 < j \<and> j \<le> k \<and> cap = takeWhile (\<lambda>c. \<not> is_line_terminator c) (drop j r) \<and> cap \<noteq> []
          \<and> (\<forall>i. j < i \<and> i \<le> k \<longrightarrow> takeWhile (\<lambda>c. \<not> is_line_terminator c) (drop i r) = []))"
proof (induction k)
  case 0
  then show ?case by simp
next
  case (Suc k)
  let ?t = "\<lambda>i. takeWhile (\<lambda>c. \<not> is_line_terminator c) (drop i r)"
  show ?case
  proof (cases "?t (Suc k) = []")
    case True
    have "(\<exists>j. 0 < j \<and> j \<le> Suc k \<and> cap = ?t j \<and> cap \<noteq> [] \<and> (\<forall>i. j < i \<and> i \<le> Suc k \<longrightarrow> ?t i = []))
        \<longleftrightarrow> (\<exists>j. 0 < j \<and> j \<le> k \<and> cap = ?t j \<and> cap \<noteq> [] \<and> (\<forall>i. j < i \<and> i \<le> k \<longrightarrow> ?t i = []))"
    proof
      assume "\<exists>j. 0 < j \<and> j \<le> Suc k \<and> cap = ?t j \<and> cap \<noteq> [] \<and> (\<forall>i. j < i \<and> i \<le> Suc k \<longrightarrow> ?t i = [])"
      then obtain j where j: "0 < j" "j \<le> Suc k" "cap = ?t j" "cap \<noteq> []"
        "\<forall>i. j < i \<and> i \<le> Suc k \<longrightarrow> ?t i = []" by blast
      from j(3,4) True have "j \<noteq> Suc k" by auto
      with j(2) have "j \<le> k" by simp
      with j show "\<exists>j. 0 < j \<and> j \<le> k \<and> cap = ?t j \<and> cap \<noteq> [] \<and> (\<forall>i. j < i \<and> i \<le> k \<longrightarrow> ?t i = [])"
        by (intro exI[of _ j]) simp
    next
      assume "\<exists>j. 0 < j \<and> j \<le> k \<and> cap = ?t j \<and> cap \<noteq> [] \<and> (\<forall>i. j < i \<and> i \<le> k \<longrightarrow> ?t i = [])"
      then obtain j where j: "0 < j" "j \<le> k" "cap = ?t j" "cap \<noteq> []"
        "\<forall>i. j < i \<and> i \<le> k \<longrightarrow> ?t i = []" by blast
      have "\<forall>i. j < i \<and> i \<le> Suc k \<longrightarrow> ?t i = []"
      proof (intro allI impI)
        fix i assume "j < i \<and> i \<le> Suc k"
        then consider "i \<le> k" "j < i" | "i = Suc k" by linarith
        then show "?t i = []" using j(5) True by cases simp_all
      qed
      with j show "\<exists>j. 0 < j \<and> j \<le> Suc k \<and> cap = ?t j \<and> cap \<noteq> [] \<and> (\<forall>i. j < i \<and> i \<le> Suc k \<longrightarrow> ?t i = [])"
        by (intro exI[of _ j]) simp
    qed
    with True Suc.IH show ?thesis by simp
  next
    case False
    have "(\<exists>j. 0 < j \<and> j \<le> Suc k \<and> cap = ?t j \<and> cap \<noteq> [] \<and> (\<forall>i. j < i \<and> i \<le> Suc k \<longrightarrow> ?t i = []))
        \<longleftrightarrow> cap = ?t (Suc k)"
    proof
      assume "\<exists>j. 0 < j \<and> j \<le> Suc k \<and> cap = ?t j \<and> cap \<noteq> [] \<and> (\<forall>i. j < i \<and> i \<le> Suc k \<longrightarrow> ?t i = [])"
      then obtain j where j: "j \<le> Suc k" "cap = ?t j" "\<forall>i. j < i \<and> i \<le> Suc k \<longrightarrow> ?t i = []" by blast
      have "j = Suc k"
      proof (rule ccontr)
        assume "j \<noteq> Suc k"
        with j(1) have "j < Suc k" by simp
        with j(3) have "?t (Suc k) = []" by blast
        with False show False by simp
      qed
      with j(2) show "cap = ?t (Suc k)" by simp
    next
      assume "cap = ?t (Suc k)"
      with False show "\<exists>j. 0 < j \<and> j \<le> Suc k \<and> cap = ?t j \<and> cap \<noteq> [] \<and> (\<forall>i. j < i \<and> i \<le> Suc k \<longrightarrow> ?t i = [])"
        by (intro exI[of _ "Suc k"]) simp
    qed
    with False show ?thesis by auto
  qed
qed

lemma prefix_all_takeWhile:
  "prefix ws r \<Longrightarrow> list_all P ws \<Longrightarrow> length ws \<le> length (takeWhile P r)"
proof (induction ws arbitrary: r)
  case Nil
  then show ?case by simp
next
  case (Cons a ws)
  then obtain r' where "r = a # r'" "prefix ws r'" by (auto simp: prefix_def)
  with Cons show ?case by simp
qed

lemma take_takeWhile_all:
  "j \<le> length (takeWhile P r) \<Longrightarrow> list_all P (take j r)"
proof (induction r arbitrary: j)
  case Nil
  then show ?case by simp
next
  case (Cons a r)
  then show ?case by (cases j) (auto split: if_splits)
qed

lemma tag_rest_iff:
  "tag_rest r = Some cap \<longleftrightarrow>
     (\<exists>ws rest. r = ws @ cap @ rest \<and> ws \<noteq> [] \<and> list_all is_space ws
         \<and> cap \<noteq> [] \<and> list_all (\<lambda>c. \<not> is_line_terminator c) cap
         \<and> (rest = [] \<or> is_line_terminator (hd rest))
         \<and> (\<forall>ws' c. list_all is_space ws' \<and> \<not> is_line_terminator c \<and> prefix (ws' @ [c]) r
               \<longrightarrow> length ws' \<le> length ws))"
proof
  let ?t = "\<lambda>i. takeWhile (\<lambda>c. \<not> is_line_terminator c) (drop i r)"
  let ?k = "length (takeWhile is_space r)"
  assume "tag_rest r = Some cap"
  then obtain j where j: "0 < j" "j \<le> ?k" "cap = ?t j" "cap \<noteq> []"
    "\<forall>i. j < i \<and> i \<le> ?k \<longrightarrow> ?t i = []"
    unfolding tag_rest_def tag_backtrack_iff by blast
  define ws where "ws = take j r"
  define rest where "rest = dropWhile (\<lambda>c. \<not> is_line_terminator c) (drop j r)"
  have "?k \<le> length r" by (rule length_takeWhile_le)
  with j(1,2) have wsne: "ws \<noteq> []" unfolding ws_def by auto
  have wsall: "list_all is_space ws" unfolding ws_def using j(2) by (rule take_takeWhile_all)
  have len: "length ws = j" unfolding ws_def using j(2) \<open>?k \<le> length r\<close> by simp
  have r: "r = ws @ cap @ rest" unfolding ws_def rest_def j(3) by simp
  have capall: "list_all (\<lambda>c. \<not> is_line_terminator c) cap"
    unfolding j(3) by (auto simp: list_all_iff dest: set_takeWhileD)
  have restlt: "rest = [] \<or> is_line_terminator (hd rest)"
    unfolding rest_def using hd_dropWhile[of "\<lambda>c. \<not> is_line_terminator c" "drop j r"] by blast
  have maxi: "\<forall>ws' c. list_all is_space ws' \<and> \<not> is_line_terminator c \<and> prefix (ws' @ [c]) r
               \<longrightarrow> length ws' \<le> length ws"
  proof (intro allI impI)
    fix ws' c assume a: "list_all is_space ws' \<and> \<not> is_line_terminator c \<and> prefix (ws' @ [c]) r"
    then obtain tl' where r': "r = ws' @ c # tl'" by (auto simp: prefix_def)
    then have "prefix ws' r" by simp
    with a have le: "length ws' \<le> ?k" by (intro prefix_all_takeWhile) simp_all
    from r' have "drop (length ws') r = c # tl'" by simp
    with a have ne: "?t (length ws') \<noteq> []" by simp
    show "length ws' \<le> length ws"
    proof (rule ccontr)
      assume "\<not> length ws' \<le> length ws"
      with len have "j < length ws'" by simp
      with le j(5) have "?t (length ws') = []" by blast
      with ne show False by simp
    qed
  qed
  from r wsne wsall j(4) capall restlt maxi
  show "\<exists>ws rest. r = ws @ cap @ rest \<and> ws \<noteq> [] \<and> list_all is_space ws
         \<and> cap \<noteq> [] \<and> list_all (\<lambda>c. \<not> is_line_terminator c) cap
         \<and> (rest = [] \<or> is_line_terminator (hd rest))
         \<and> (\<forall>ws' c. list_all is_space ws' \<and> \<not> is_line_terminator c \<and> prefix (ws' @ [c]) r
               \<longrightarrow> length ws' \<le> length ws)"
    by blast
next
  let ?t = "\<lambda>i. takeWhile (\<lambda>c. \<not> is_line_terminator c) (drop i r)"
  let ?k = "length (takeWhile is_space r)"
  assume "\<exists>ws rest. r = ws @ cap @ rest \<and> ws \<noteq> [] \<and> list_all is_space ws
         \<and> cap \<noteq> [] \<and> list_all (\<lambda>c. \<not> is_line_terminator c) cap
         \<and> (rest = [] \<or> is_line_terminator (hd rest))
         \<and> (\<forall>ws' c. list_all is_space ws' \<and> \<not> is_line_terminator c \<and> prefix (ws' @ [c]) r
               \<longrightarrow> length ws' \<le> length ws)"
  then obtain ws rest where r: "r = ws @ cap @ rest" and wsne: "ws \<noteq> []" and wsall: "list_all is_space ws"
    and capne: "cap \<noteq> []" and capall: "list_all (\<lambda>c. \<not> is_line_terminator c) cap"
    and restlt: "rest = [] \<or> is_line_terminator (hd rest)"
    and maxi: "\<forall>ws' c. list_all is_space ws' \<and> \<not> is_line_terminator c \<and> prefix (ws' @ [c]) r
               \<longrightarrow> length ws' \<le> length ws"
    by blast
  define j where "j = length ws"
  from wsne have j0: "0 < j" unfolding j_def by simp
  from r have "prefix ws r" by simp
  from prefix_all_takeWhile[OF this wsall] have jk: "j \<le> ?k" unfolding j_def .
  have dj: "drop j r = cap @ rest" unfolding j_def r by simp
  have tj: "?t j = cap"
  proof (cases rest)
    case Nil
    with capall show ?thesis unfolding dj by (simp add: list_all_iff)
  next
    case (Cons a rest')
    with restlt have "is_line_terminator a" by simp
    with Cons capall show ?thesis unfolding dj
      by (subst takeWhile_append2) (auto simp: list_all_iff)
  qed
  have above: "\<forall>i. j < i \<and> i \<le> ?k \<longrightarrow> ?t i = []"
  proof (intro allI impI, rule ccontr)
    fix i assume i: "j < i \<and> i \<le> ?k" and ne: "?t i \<noteq> []"
    from ne have dne: "drop i r \<noteq> []" and nlt: "\<not> is_line_terminator (hd (drop i r))"
      by (simp_all add: takeWhile_nonempty_iff)
    from dne have il: "i < length r" by simp
    have "r = take i r @ drop i r" by simp
    moreover from dne have "drop i r = hd (drop i r) # tl (drop i r)" by simp
    ultimately have "r = (take i r @ [hd (drop i r)]) @ tl (drop i r)" by (metis append_Cons append_Nil append_assoc)
    then have "prefix (take i r @ [hd (drop i r)]) r" by (metis prefixI)
    moreover from i have "list_all is_space (take i r)" by (intro take_takeWhile_all) simp
    ultimately have "length (take i r) \<le> length ws" using maxi nlt by blast
    with il have "i \<le> j" unfolding j_def by simp
    with i show False by simp
  qed
  from j0 jk tj capne above show "tag_rest r = Some cap"
    unfolding tag_rest_def tag_backtrack_iff by (intro exI[of _ j]) simp
qed

lemma tag_rest_None_iff:
  "tag_rest r = None \<longleftrightarrow>
     \<not> (\<exists>ws c. ws \<noteq> [] \<and> list_all is_space ws \<and> \<not> is_line_terminator c \<and> prefix (ws @ [c]) r)"
proof
  assume n: "tag_rest r = None"
  show "\<not> (\<exists>ws c. ws \<noteq> [] \<and> list_all is_space ws \<and> \<not> is_line_terminator c \<and> prefix (ws @ [c]) r)"
  proof
    let ?t = "\<lambda>i. takeWhile (\<lambda>c. \<not> is_line_terminator c) (drop i r)"
    let ?k = "length (takeWhile is_space r)"
    assume "\<exists>ws c. ws \<noteq> [] \<and> list_all is_space ws \<and> \<not> is_line_terminator c \<and> prefix (ws @ [c]) r"
    then obtain ws c tl' where ws: "ws \<noteq> []" "list_all is_space ws" "\<not> is_line_terminator c"
      and r: "r = ws @ c # tl'" by (auto simp: prefix_def)
    from r have "prefix ws r" by simp
    from prefix_all_takeWhile[OF this ws(2)] have le: "length ws \<le> ?k" .
    from r have "drop (length ws) r = c # tl'" by simp
    with ws(3) have ne: "?t (length ws) \<noteq> []" by simp
    have "\<exists>cap. tag_backtrack k r = Some cap" if "length ws \<le> k" for k
      using that
    proof (induction k)
      case 0
      with ws(1) show ?case by simp
    next
      case (Suc k)
      show ?case
      proof (cases "?t (Suc k) = []")
        case True
        with ne have "length ws \<noteq> Suc k" by auto
        with Suc.prems have "length ws \<le> k" by simp
        from Suc.IH[OF this] True show ?thesis by simp
      next
        case False
        then show ?thesis by simp
      qed
    qed
    from this[OF le] n show False by (simp add: tag_rest_def)
  qed
next
  assume a: "\<not> (\<exists>ws c. ws \<noteq> [] \<and> list_all is_space ws \<and> \<not> is_line_terminator c \<and> prefix (ws @ [c]) r)"
  show "tag_rest r = None"
  proof (cases "tag_rest r")
    case (Some cap)
    then obtain ws rest where r: "r = ws @ cap @ rest" and w: "ws \<noteq> []" "list_all is_space ws"
      and c: "cap \<noteq> []" "list_all (\<lambda>c. \<not> is_line_terminator c) cap"
      unfolding tag_rest_iff by blast
    from c obtain x xs where cap: "cap = x # xs" and "\<not> is_line_terminator x" by (cases cap) auto
    moreover from r cap have "prefix (ws @ [x]) r" by (simp add: prefix_def)
    ultimately show ?thesis using a w by blast
  qed simp
qed

lemma prefix_append_drop:
  "prefix (a @ x) s \<longleftrightarrow> prefix a s \<and> prefix x (drop (length a) s)"
proof
  assume "prefix (a @ x) s"
  then obtain t where "s = a @ x @ t" by (auto simp: prefix_def)
  then show "prefix a s \<and> prefix x (drop (length a) s)" by simp
next
  assume "prefix a s \<and> prefix x (drop (length a) s)"
  then obtain t u where "s = a @ t" "drop (length a) s = x @ u" by (auto simp: prefix_def)
  then show "prefix (a @ x) s" by simp
qed

lemma tag_rest_Nil: "tag_rest [] = None"
  by (simp add: tag_rest_def)

lemma match_tag_leftmost:
  "match_tag tag b = Some cap \<longleftrightarrow>
     (\<exists>n. prefix tag (drop n b) \<and> tag_rest (drop (n + length tag) b) = Some cap
          \<and> (\<forall>m<n. prefix tag (drop m b) \<longrightarrow> tag_rest (drop (m + length tag) b) = None))"
proof -
  define at where "at = (\<lambda>s. if prefix tag s then tag_rest (drop (length tag) s) else None)"
  have at: "at (drop n b) = r \<longleftrightarrow>
      (if prefix tag (drop n b) then tag_rest (drop (n + length tag) b) = r else r = None)" for n r
    unfolding at_def by (auto simp: add.commute)
  have "match_tag tag b = Some cap \<longleftrightarrow>
      (\<exists>n<length b. at (drop n b) = Some cap \<and> (\<forall>m<n. at (drop m b) = None))"
    by (rule leftmost_Some) (simp_all add: at_def split: option.splits)
  moreover have "n < length b" if "at (drop n b) = Some cap" for n
  proof (rule ccontr)
    assume "\<not> n < length b"
    then have "drop n b = []" by simp
    with that show False by (simp add: at_def tag_rest_Nil split: if_splits)
  qed
  ultimately have "match_tag tag b = Some cap \<longleftrightarrow>
      (\<exists>n. at (drop n b) = Some cap \<and> (\<forall>m<n. at (drop m b) = None))"
    by blast
  also have "\<dots> \<longleftrightarrow> (\<exists>n. prefix tag (drop n b) \<and> tag_rest (drop (n + length tag) b) = Some cap
          \<and> (\<forall>m<n. prefix tag (drop m b) \<longrightarrow> tag_rest (drop (m + length tag) b) = None))"
    unfolding at by (auto split: if_splits)
  finally show ?thesis .
qed

lemma match_tag_nowhere:
  "match_tag tag b = None \<longleftrightarrow>
     (\<forall>n. prefix tag (drop n b) \<longrightarrow> tag_rest (drop (n + length tag) b) = None)"
proof -
  define at where "at = (\<lambda>s. if prefix tag s then tag_rest (drop (length tag) s) else None)"
  have at: "at (drop n b) = None \<longleftrightarrow>
      (prefix tag (drop n b) \<longrightarrow> tag_rest (drop (n + length tag) b) = None)" for n
    unfolding at_def by (auto simp: add.commute)
  have "match_tag tag b = None \<longleftrightarrow> (\<forall>n<length b. at (drop n b) = None)"
    by (rule leftmost_None) (simp_all add: at_def split: option.splits)
  moreover have "at (drop n b) = None" if "\<not> n < length b" for n
    using that by (simp add: at_def tag_rest_Nil)
  ultimately have "match_tag tag b = None \<longleftrightarrow> (\<forall>n. at (drop n b) = None)" by blast
  then show ?thesis unfolding at .
qed

lemma match_tag_None_iff:
  "match_tag tag b = None \<longleftrightarrow>
     \<not> (\<exists>n ws c. ws \<noteq> [] \<and> list_all is_space ws \<and> \<not> is_line_terminator c
           \<and> prefix (tag @ ws @ [c]) (drop n b))"
proof -
  have "prefix (tag @ ws @ [c]) (drop n b) \<longleftrightarrow>
      prefix tag (drop n b) \<and> prefix (ws @ [c]) (drop (n + length tag) b)" for ws c n
    by (simp add: prefix_append_drop[of tag] add.commute)
  then show ?thesis
    unfolding match_tag_nowhere tag_rest_None_iff by blast
qed

lemma keyword_at_here:
  assumes "list_all is_space ws" and "kw = ''contract'' \<or> kw = ''function''"
  shows "keyword_at (ws @ kw @ rest) = Some (kw, rest)"
proof -
  from assms(2) have "kw \<noteq> []" "\<not> is_space (hd kw)" by (auto simp: is_space_def)
  then have "dropWhile is_space (kw @ rest) = kw @ rest" by (cases kw) auto
  moreover have "dropWhile is_space (ws @ kw @ rest) = dropWhile is_space (kw @ rest)"
    using assms(1) by (intro dropWhile_append2) (simp add: list_all_iff)
  ultimately have "dropWhile is_space (ws @ kw @ rest) = kw @ rest" by simp
  with assms(2) show ?thesis by (auto simp: keyword_at_def)
qed

lemma lazy_body_found:
  assumes "list_all is_space ws" and "kw = ''contract'' \<or> kw = ''function''"
  shows "lazy_body (block @ ''*/'' @ ws @ kw @ rest) \<noteq> None"
proof (induction block)
  case Nil
  from keyword_at_here[OF assms, of rest] show ?case by simp
next
  case (Cons c block)
  then show ?case by (auto split: option.splits)
qed

lemma docRegex_exec_leftmost_None:
  "docRegex_exec s = None \<longleftrightarrow>
     (\<forall>n<length s. (if prefix (''/**'' @ newline) (drop n s) then lazy_body (drop 4 (drop n s)) else None) = None)"
proof -
  define at where "at = (\<lambda>s. if prefix (''/**'' @ newline) s then lazy_body (drop 4 s) else None)"
  have nil: "docRegex_exec [] = None" by simp
  have step: "docRegex_exec (c # cs) = (case at (c # cs) of Some m \<Rightarrow> Some m | None \<Rightarrow> docRegex_exec cs)"
    for c cs
    unfolding at_def by (simp only: docRegex_exec.simps)
  have "docRegex_exec s = None \<longleftrightarrow> (\<forall>n<length s. at (drop n s) = None)"
    using nil step by (rule leftmost_None)
  then show ?thesis unfolding at_def .
qed

lemma docRegex_exec_None_iff:
  "docRegex_exec s = None \<longleftrightarrow>
     \<not> (\<exists>before block ws kw rest.
           s = before @ ''/**'' @ newline @ block @ ''*/'' @ ws @ kw @ rest
           \<and> list_all is_space ws \<and> (kw = ''contract'' \<or> kw = ''function''))"
proof
  assume n: "docRegex_exec s = None"
  show "\<not> (\<exists>before block ws kw rest.
           s = before @ ''/**'' @ newline @ block @ ''*/'' @ ws @ kw @ rest
           \<and> list_all is_space ws \<and> (kw = ''contract'' \<or> kw = ''function''))"
  proof
    assume "\<exists>before block ws kw rest.
           s = before @ ''/**'' @ newline @ block @ ''*/'' @ ws @ kw @ rest
           \<and> list_all is_space ws \<and> (kw = ''contract'' \<or> kw = ''function'')"
    then obtain before block ws kw rest where
      s: "s = before @ ''/**'' @ newline @ block @ ''*/'' @ ws @ kw @ rest"
      and w: "list_all is_space ws" and k: "kw = ''contract'' \<or> kw = ''function''" by blast
    define tl' where "tl' = block @ ''*/'' @ ws @ kw @ rest"
    from s have s': "s = before @ (''/**'' @ newline) @ tl'" unfolding tl'_def by simp
    then have d: "drop (length before) s = (''/**'' @ newline) @ tl'" by simp
    have p: "prefix (''/**'' @ newline) (drop (length before) s)" unfolding d by simp
    have "length (''/**'' @ newline) = 4" by (simp add: newline_def)
    then have d4: "drop 4 (drop (length before) s) = tl'" unfolding d by simp
    from s' have "length before < length s" by (simp add: newline_def)
    with n[unfolded docRegex_exec_leftmost_None] p have "lazy_body (drop 4 (drop (length before) s)) = None"
      by (metis (full_types))
    with lazy_body_found[OF w k, of block rest] show False unfolding d4 tl'_def by simp
  qed
next
  assume a: "\<not> (\<exists>before block ws kw rest.
           s = before @ ''/**'' @ newline @ block @ ''*/'' @ ws @ kw @ rest
           \<and> list_all is_space ws \<and> (kw = ''contract'' \<or> kw = ''function''))"
  show "docRegex_exec s = None"
  proof (cases "docRegex_exec s")
    case None
    then show ?thesis .
  next
    case (Some m)
    obtain block kw rest where "m = (block, kw, rest)" by (cases m) auto
    with Some have "docRegex_exec s = Some (block, kw, rest)" by simp
    from docRegex_exec_Some[OF this] have "\<exists>before block ws kw rest.
           s = before @ ''/**'' @ newline @ block @ ''*/'' @ ws @ kw @ rest
           \<and> list_all is_space ws \<and> (kw = ''contract'' \<or> kw = ''function'')"
      by (elim exE conjE) (intro exI conjI, assumption+)
    with a show ?thesis by contradiction
  qed
qed

lemma solidity_record_length: "length (solidity_record b) \<le> 1"
  by (simp add: solidity_record_def split: option.splits)

lemma solidity_record_empty_iff: "solidity_record b = [] \<longleftrightarrow> match_tag ''@title'' b = None"
  by (simp add: solidity_record_def split: option.splits)

lemma lazy_body_shortest:
  "lazy_body s = Some (block, kw, rest) \<Longrightarrow>
     s = block' @ ''*/'' @ ws' @ kw' @ rest' \<Longrightarrow> list_all is_space ws' \<Longrightarrow>
     kw' = ''contract'' \<or> kw' = ''function'' \<Longrightarrow> length block \<le> length block'"
proof (induction s arbitrary: block block')
  case Nil
  then show ?case by simp
next
  case (Cons c cs)
  show ?case
  proof (cases "if prefix ''*/'' (c # cs) then keyword_at (drop 2 (c # cs)) else None")
    case (Some a)
    with Cons.prems(1) have "block = []" by (auto split: if_splits)
    then show ?thesis by simp
  next
    case None
    with Cons.prems(1) obtain b' where b': "lazy_body cs = Some (b', kw, rest)" and blk: "block = c # b'"
      by (auto split: option.splits)
    show ?thesis
    proof (cases block')
      case Nil
      with Cons.prems(2) have s: "c # cs = ''*/'' @ ws' @ kw' @ rest'" by simp
      then have "prefix ''*/'' (c # cs)" "drop 2 (c # cs) = ws' @ kw' @ rest'" by simp_all
      with keyword_at_here[OF Cons.prems(3,4), of rest'] None show ?thesis by simp
    next
      case (Cons c' b'')
      with Cons.prems(2) have "cs = b'' @ ''*/'' @ ws' @ kw' @ rest'" by simp
      from Cons.IH[OF b' this Cons.prems(3,4)] blk Cons show ?thesis by simp
    qed
  qed
qed

lemma lazy_body_iff:
  "lazy_body s = Some (block, kw, rest) \<longleftrightarrow>
     (\<exists>ws. s = block @ ''*/'' @ ws @ kw @ rest \<and> list_all is_space ws
          \<and> (kw = ''contract'' \<or> kw = ''function''))
     \<and> (\<forall>block' ws' kw' rest'.
           s = block' @ ''*/'' @ ws' @ kw' @ rest' \<and> list_all is_space ws'
           \<and> (kw' = ''contract'' \<or> kw' = ''function'') \<longrightarrow> length block \<le> length block')"
proof
  assume a: "lazy_body s = Some (block, kw, rest)"
  from lazy_body_Some[OF a] have "\<exists>ws. s = block @ ''*/'' @ ws @ kw @ rest \<and> list_all is_space ws
          \<and> (kw = ''contract'' \<or> kw = ''function'')" .
  moreover have "\<forall>block' ws' kw' rest'.
           s = block' @ ''*/'' @ ws' @ kw' @ rest' \<and> list_all is_space ws'
           \<and> (kw' = ''contract'' \<or> kw' = ''function'') \<longrightarrow> length block \<le> length block'"
    using lazy_body_shortest[OF a] by blast
  ultimately show "(\<exists>ws. s = block @ ''*/'' @ ws @ kw @ rest \<and> list_all is_space ws
          \<and> (kw = ''contract'' \<or> kw = ''function''))
     \<and> (\<forall>block' ws' kw' rest'.
           s = block' @ ''*/'' @ ws' @ kw' @ rest' \<and> list_all is_space ws'
           \<and> (kw' = ''contract'' \<or> kw' = ''function'') \<longrightarrow> length block \<le> length block')"
    by (rule conjI)
next
  assume "(\<exists>ws. s = block @ ''*/'' @ ws @ kw @ rest \<and> list_all is_space ws
          \<and> (kw = ''contract'' \<or> kw = ''function''))
     \<and> (\<forall>block' ws' kw' rest'.
           s = block' @ ''*/'' @ ws' @ kw' @ rest' \<and> list_all is_space ws'
           \<and> (kw' = ''contract'' \<or> kw' = ''function'') \<longrightarrow> length block \<le> length block')"
  then obtain ws where s: "s = block @ ''*/'' @ ws @ kw @ rest" and w: "list_all is_space ws"
    and k: "kw = ''contract'' \<or> kw = ''function''"
    and mini: "\<And>block' ws' kw' rest'. s = block' @ ''*/'' @ ws' @ kw' @ rest' \<Longrightarrow> list_all is_space ws'
           \<Longrightarrow> kw' = ''contract'' \<or> kw' = ''function'' \<Longrightarrow> length block \<le> length block'"
    by blast
  from lazy_body_found[OF w k, of block rest] s obtain b0 k0 r0 where l: "lazy_body s = Some (b0, k0, r0)"
    by (cases "lazy_body s") auto
  from lazy_body_Some[OF l] obtain ws0 where s0: "s = b0 @ ''*/'' @ ws0 @ k0 @ r0"
    and w0: "list_all is_space ws0" and k0: "k0 = ''contract'' \<or> k0 = ''function''" by blast
  from mini[OF s0 w0 k0] lazy_body_shortest[OF l s w k] have len: "length block = length b0" by simp
  from s s0 have "block @ (''*/'' @ ws @ kw @ rest) = b0 @ (''*/'' @ ws0 @ k0 @ r0)" by simp
  with len have eq: "block = b0" and tl: "ws @ kw @ rest = ws0 @ k0 @ r0" by simp_all
  from keyword_at_here[OF w k, of rest] keyword_at_here[OF w0 k0, of r0] tl
  have "kw = k0" "rest = r0" by simp_all
  with l eq show "lazy_body s = Some (block, kw, rest)" by simp
qed

lemma lazy_body_Nil: "lazy_body [] = None"
  by simp

lemma docRegex_exec_leftmost:
  "docRegex_exec s = Some m \<longleftrightarrow>
     (\<exists>n. prefix (''/**'' @ newline) (drop n s) \<and> lazy_body (drop (n + 4) s) = Some m
          \<and> (\<forall>k<n. prefix (''/**'' @ newline) (drop k s) \<longrightarrow> lazy_body (drop (k + 4) s) = None))"
proof -
  define at where "at = (\<lambda>s. if prefix (''/**'' @ newline) s then lazy_body (drop 4 s) else None)"
  have nil: "docRegex_exec [] = None" by simp
  have step: "docRegex_exec (c # cs) = (case at (c # cs) of Some m \<Rightarrow> Some m | None \<Rightarrow> docRegex_exec cs)"
    for c cs
    unfolding at_def by (simp only: docRegex_exec.simps)
  have at: "at (drop n s) = r \<longleftrightarrow>
      (if prefix (''/**'' @ newline) (drop n s) then lazy_body (drop (n + 4) s) = r else r = None)" for n r
    unfolding at_def by (auto simp: add.commute)
  have "docRegex_exec s = Some m \<longleftrightarrow>
      (\<exists>n<length s. at (drop n s) = Some m \<and> (\<forall>k<n. at (drop k s) = None))"
    using nil step by (rule leftmost_Some)
  moreover have "n < length s" if "at (drop n s) = Some m" for n
  proof (rule ccontr)
    assume "\<not> n < length s"
    then have "drop n s = []" by simp
    with that show False by (simp add: at_def split: if_splits)
  qed
  ultimately have "docRegex_exec s = Some m \<longleftrightarrow>
      (\<exists>n. at (drop n s) = Some m \<and> (\<forall>k<n. at (drop k s) = None))"
    by blast
  also have "\<dots> \<longleftrightarrow> (\<exists>n. prefix (''/**'' @ newline) (drop n s) \<and> lazy_body (drop (n + 4) s) = Some m
          \<and> (\<forall>k<n. prefix (''/**'' @ newline) (drop k s) \<longrightarrow> lazy_body (drop (k + 4) s) = None))"
    unfolding at by (auto split: if_splits)
  finally show ?thesis .
qed

text \<open>
  Claim C7 fails on a comment block that has an \<open>@title\<close> line and nothing after the tag:
  with the closing marker at the start of the next line, the white space after \<open>@title\<close>
  is the line feed alone, the dot finds no character, and the block yields no record.
\<close>

theorem extractSolidityDocs_bare_title:
  "doc_blocks (''/**'' @ newline @ '' * @title'' @ newline @ ''*/'' @ newline @ ''contract X {}'') =
     ['' * @title'' @ newline]
   \<and> includes_str ('' * @title'' @ newline) ''@title''
   \<and> extractSolidityDocs_text
       (''/**'' @ newline @ '' * @title'' @ newline @ ''*/'' @ newline @ ''contract X {}'') = []"
proof -
  define c where "c = ''/**'' @ newline @ '' * @title'' @ newline @ ''*/'' @ newline @ ''contract X {}''"
  define b where "b = '' * @title'' @ newline"
  have e1: "docRegex_exec c = Some (b, ''contract'', '' X {}'')"
    unfolding c_def b_def by code_simp
  have e2: "docRegex_exec '' X {}'' = None" by code_simp
  have blocks: "doc_blocks c = [b]"
    by (simp only: doc_blocks_def docRegex_loop_Some[OF e1] docRegex_loop_None[OF e2] append_Nil2
        append_Cons append_Nil)
  have inc: "includes_str b ''@title''" unfolding b_def by code_simp
  have r: "solidity_record b = []" unfolding b_def by code_simp
  have "extractSolidityDocs_text c = []"
    by (simp only: extractSolidityDocs_text_def docRegex_loop_Some[OF e1] docRegex_loop_None[OF e2]
        r append_Nil2)
  with blocks inc show ?thesis unfolding c_def b_def by simp
qed

text \<open>
  Claim C7, amended. The records of a contract text are those of its comment-block
  matches, in order (first and second part); a match is the opening marker and a line
  feed, the comment text, the closing marker, optional white space and one of the keywords
  \<open>contract\<close> and \<open>function\<close> (third part), and there is a match exactly when the text
  has such a place (fourth part). A comment text yields at most one record (fifth part),
  and it yields one exactly when \<open>@title\s+(.+)\<close> matches in it: when somewhere in it
  \<open>@title\<close> is followed by white space and, after some of that white space, by a character
  that is no line terminator (sixth part). So it yields none when the text \<open>@title\<close> does
  not occur in it (seventh part), and none either when \<open>@title\<close> is followed by nothing or
  by no white space. The record has the trimmed group as its name (eighth part); its
  category and chapter are \<open>general\<close> and its description is empty when the tag has no
  match (ninth part), as when the tag does not occur in the comment text (tenth part). For
  every tag, there is no match exactly when no place of the text has the tag, white space
  and such a character (eleventh part); the match is the leftmost one (twelfth part), and
  its group starts after the longest white space that leaves it a first character and
  runs to the end of the line (thirteenth part). The comment-block match itself is the
  leftmost one (fourteenth part), with the shortest comment text that a closing marker,
  optional white space and a keyword follow (last part).
\<close>

theorem extractSolidityDocs_title_match:
  "extractSolidityDocs_text content = concat (map solidity_record (doc_blocks content))
   \<and> doc_blocks content =
       (case docRegex_exec content of None \<Rightarrow> [] | Some (block, kw, rest) \<Rightarrow> block # doc_blocks rest)
   \<and> (docRegex_exec content = Some (block, kw, rest) \<longrightarrow>
        (\<exists>before ws. content = before @ ''/**'' @ newline @ block @ ''*/'' @ ws @ kw @ rest
            \<and> list_all is_space ws \<and> (kw = ''contract'' \<or> kw = ''function'')))
   \<and> (docRegex_exec content = None \<longleftrightarrow>
        \<not> (\<exists>before body ws key after.
              content = before @ ''/**'' @ newline @ body @ ''*/'' @ ws @ key @ after
              \<and> list_all is_space ws \<and> (key = ''contract'' \<or> key = ''function'')))
   \<and> length (solidity_record b) \<le> 1
   \<and> (solidity_record b = [] \<longleftrightarrow>
        \<not> (\<exists>n ws c. ws \<noteq> [] \<and> list_all is_space ws \<and> \<not> is_line_terminator c
              \<and> prefix (''@title'' @ ws @ [c]) (drop n b)))
   \<and> (\<not> includes_str b ''@title'' \<longrightarrow> solidity_record b = [])
   \<and> (match_tag ''@title'' b = Some title \<longrightarrow>
        solidity_record b =
          [\<lparr>doc_name = trim title,
            doc_category = tag_field ''@category'' b,
            doc_chapter = tag_field ''@chapter'' b,
            doc_description = (case match_tag ''@notice'' b of None \<Rightarrow> [] | Some d \<Rightarrow> trim d)\<rparr>])
   \<and> (\<forall>r \<in> set (solidity_record b).
          (match_tag ''@category'' b = None \<longrightarrow> doc_category r = ''general'')
        \<and> (match_tag ''@chapter'' b = None \<longrightarrow> doc_chapter r = ''general'')
        \<and> (match_tag ''@notice'' b = None \<longrightarrow> doc_description r = []))
   \<and> (\<not> includes_str b tag \<longrightarrow> match_tag tag b = None)
   \<and> (match_tag tag b = None \<longleftrightarrow>
        \<not> (\<exists>n ws c. ws \<noteq> [] \<and> list_all is_space ws \<and> \<not> is_line_terminator c
              \<and> prefix (tag @ ws @ [c]) (drop n b)))
   \<and> (match_tag tag b = Some cap \<longleftrightarrow>
        (\<exists>n. prefix tag (drop n b) \<and> tag_rest (drop (n + length tag) b) = Some cap
             \<and> (\<forall>m<n. prefix tag (drop m b) \<longrightarrow> tag_rest (drop (m + length tag) b) = None)))
   \<and> (tag_rest t = Some cap \<longleftrightarrow>
        (\<exists>ws after. t = ws @ cap @ after \<and> ws \<noteq> [] \<and> list_all is_space ws
            \<and> cap \<noteq> [] \<and> list_all (\<lambda>c. \<not> is_line_terminator c) cap
            \<and> (after = [] \<or> is_line_terminator (hd after))
            \<and> (\<forall>ws' c. list_all is_space ws' \<and> \<not> is_line_terminator c \<and> prefix (ws' @ [c]) t
                  \<longrightarrow> length ws' \<le> length ws)))
   \<and> (docRegex_exec content = Some (block, kw, rest) \<longleftrightarrow>
        (\<exists>n. prefix (''/**'' @ newline) (drop n content)
             \<and> lazy_body (drop (n + 4) content) = Some (block, kw, rest)
             \<and> (\<forall>m<n. prefix (''/**'' @ newline) (drop m content)
                    \<longrightarrow> lazy_body (drop (m + 4) content) = None)))
   \<and> (lazy_body s = Some (block, kw, rest) \<longleftrightarrow>
        (\<exists>ws. s = block @ ''*/'' @ ws @ kw @ rest \<and> list_all is_space ws
             \<and> (kw = ''contract'' \<or> kw = ''function''))
        \<and> (\<forall>body ws key after.
              s = body @ ''*/'' @ ws @ key @ after \<and> list_all is_space ws
              \<and> (key = ''contract'' \<or> key = ''function'') \<longrightarrow> length block \<le> length body))"
proof -
  have 1: "extractSolidityDocs_text content = concat (map solidity_record (doc_blocks content))"
    unfolding extractSolidityDocs_text_def doc_blocks_def by (rule docRegex_loop_blocks)
  have 2: "doc_blocks content =
       (case docRegex_exec content of None \<Rightarrow> [] | Some (block, kw, rest) \<Rightarrow> block # doc_blocks rest)"
    by (rule doc_blocks_unfold)
  have 3: "docRegex_exec content = Some (block, kw, rest) \<longrightarrow>
        (\<exists>before ws. content = before @ ''/**'' @ newline @ block @ ''*/'' @ ws @ kw @ rest
            \<and> list_all is_space ws \<and> (kw = ''contract'' \<or> kw = ''function''))"
    using docRegex_exec_Some by blast
  have 4: "docRegex_exec content = None \<longleftrightarrow>
        \<not> (\<exists>before body ws key after.
              content = before @ ''/**'' @ newline @ body @ ''*/'' @ ws @ key @ after
              \<and> list_all is_space ws \<and> (key = ''contract'' \<or> key = ''function''))"
    by (rule docRegex_exec_None_iff)
  have 5: "length (solidity_record b) \<le> 1"
    by (rule solidity_record_length)
  have 6: "solidity_record b = [] \<longleftrightarrow>
        \<not> (\<exists>n ws c. ws \<noteq> [] \<and> list_all is_space ws \<and> \<not> is_line_terminator c
              \<and> prefix (''@title'' @ ws @ [c]) (drop n b))"
    unfolding solidity_record_empty_iff by (rule match_tag_None_iff)
  have 7: "\<not> includes_str b ''@title'' \<longrightarrow> solidity_record b = []"
    by (auto simp: solidity_record_def match_tag_absent)
  have 8: "match_tag ''@title'' b = Some title \<longrightarrow>
        solidity_record b =
          [\<lparr>doc_name = trim title,
            doc_category = tag_field ''@category'' b,
            doc_chapter = tag_field ''@chapter'' b,
            doc_description = (case match_tag ''@notice'' b of None \<Rightarrow> [] | Some d \<Rightarrow> trim d)\<rparr>]"
    by (simp add: solidity_record_def)
  have 9: "\<forall>r \<in> set (solidity_record b).
          (match_tag ''@category'' b = None \<longrightarrow> doc_category r = ''general'')
        \<and> (match_tag ''@chapter'' b = None \<longrightarrow> doc_chapter r = ''general'')
        \<and> (match_tag ''@notice'' b = None \<longrightarrow> doc_description r = [])"
    by (auto simp: tag_field_def dest!: solidity_record_fields)
  have 10: "\<not> includes_str b tag \<longrightarrow> match_tag tag b = None"
    using match_tag_absent by blast
  have 11: "match_tag tag b = None \<longleftrightarrow>
        \<not> (\<exists>n ws c. ws \<noteq> [] \<and> list_all is_space ws \<and> \<not> is_line_terminator c
              \<and> prefix (tag @ ws @ [c]) (drop n b))"
    by (rule match_tag_None_iff)
  have 12: "match_tag tag b = Some cap \<longleftrightarrow>
        (\<exists>n. prefix tag (drop n b) \<and> tag_rest (drop (n + length tag) b) = Some cap
             \<and> (\<forall>m<n. prefix tag (drop m b) \<longrightarrow> tag_rest (drop (m + length tag) b) = None))"
    by (rule match_tag_leftmost)
  have 13: "tag_rest t = Some cap \<longleftrightarrow>
        (\<exists>ws after. t = ws @ cap @ after \<and> ws \<noteq> [] \<and> list_all is_space ws
            \<and> cap \<noteq> [] \<and> list_all (\<lambda>c. \<not> is_line_terminator c) cap
            \<and> (after = [] \<or> is_line_terminator (hd after))
            \<and> (\<forall>ws' c. list_all is_space ws' \<and> \<not> is_line_terminator c \<and> prefix (ws' @ [c]) t
                  \<longrightarrow> length ws' \<le> length ws))"
    by (rule tag_rest_iff)
  have 14: "docRegex_exec content = Some (block, kw, rest) \<longleftrightarrow>
        (\<exists>n. prefix (''/**'' @ newline) (drop n content)
             \<and> lazy_body (drop (n + 4) content) = Some (block, kw, rest)
             \<and> (\<forall>m<n. prefix (''/**'' @ newline) (drop m content)
                    \<longrightarrow> lazy_body (drop (m + 4) content) = None))"
    by (rule docRegex_exec_leftmost)
  have 15: "lazy_body s = Some (block, kw, rest) \<longleftrightarrow>
        (\<exists>ws. s = block @ ''*/'' @ ws @ kw @ rest \<and> list_all is_space ws
             \<and> (kw = ''contract'' \<or> kw = ''function''))
        \<and> (\<forall>body ws key after.
              s = body @ ''*/'' @ ws @ key @ after \<and> list_all is_space ws
              \<and> (key = ''contract'' \<or> key = ''function'') \<longrightarrow> length block \<le> length body)"
    by (rule lazy_body_iff)
  show ?thesis
    by (intro conjI) (rule 1 2 3 4 5 6 7 8 9 10 11 12 13 14 15)+
qed

theorem extractSolidityDocs_title_match_witness:
  "docRegex_exec (''/**'' @ newline @ '' * @category access'' @ newline @ '' * @notice Grants''
       @ newline @ '' */'' @ newline @ ''contract X {}'') =
     Some ('' * @category access'' @ newline @ '' * @notice Grants'' @ newline @ '' '',
           ''contract'', '' X {}'')
   \<and> \<not> includes_str ('' * @category access'' @ newline @ '' * @notice Grants'' @ newline @ '' '') ''@title''
   \<and> extractSolidityDocs_text (''/**'' @ newline @ '' * @category access'' @ newline
       @ '' * @notice Grants'' @ newline @ '' */'' @ newline @ ''contract X {}'') = []
   \<and> prefix (''@title'' @ '' '' @ ''V'') (drop 3 ('' * @title Vault'' @ newline @ '' ''))
   \<and> solidity_record ('' * @title Vault'' @ newline @ '' '') \<noteq> []
   \<and> tag_rest (drop (3 + length ''@title'') ('' * @title Vault'' @ newline @ '' '')) = Some ''Vault''
   \<and> match_tag ''@title'' ('' * @title Vault'' @ newline @ '' '') = Some ''Vault''
   \<and> match_tag ''@category'' ('' * @title Vault'' @ newline @ '' '') = None
   \<and> match_tag ''@chapter'' ('' * @title Vault'' @ newline @ '' '') = None
   \<and> match_tag ''@notice'' ('' * @title Vault'' @ newline @ '' '') = None
   \<and> extractSolidityDocs_text (''/**'' @ newline @ '' * @title Vault'' @ newline @ '' */''
       @ newline @ ''contract X {}'') =
       [\<lparr>doc_name = ''Vault'', doc_category = ''general'', doc_chapter = ''general'',
         doc_description = []\<rparr>]"
proof -
  define c1 where "c1 = ''/**'' @ newline @ '' * @category access'' @ newline @ '' * @notice Grants''
       @ newline @ '' */'' @ newline @ ''contract X {}''"
  define b1 where "b1 = '' * @category access'' @ newline @ '' * @notice Grants'' @ newline @ '' ''"
  define c2 where "c2 = ''/**'' @ newline @ '' * @title Vault'' @ newline @ '' */''
       @ newline @ ''contract X {}''"
  define b2 where "b2 = '' * @title Vault'' @ newline @ '' ''"
  define x where "x = '' X {}''"
  have e1: "docRegex_exec c1 = Some (b1, ''contract'', x)"
    unfolding c1_def b1_def x_def by code_simp
  have e2: "docRegex_exec x = None" unfolding x_def by code_simp
  have e3: "docRegex_exec c2 = Some (b2, ''contract'', x)"
    unfolding c2_def b2_def x_def by code_simp
  have n1: "\<not> includes_str b1 ''@title''" unfolding b1_def by code_simp
  have n2: "\<not> includes_str b2 ''@category''" "\<not> includes_str b2 ''@chapter''"
    "\<not> includes_str b2 ''@notice''"
    unfolding b2_def by code_simp+
  have tr: "tag_rest (drop (3 + length ''@title'') b2) = Some ''Vault''"
    unfolding b2_def by code_simp
  have trim: "trim ''Vault'' = ''Vault''" by code_simp
  have p: "prefix (''@title'' @ '' '' @ ''V'') (drop 3 b2)"
    unfolding b2_def by simp
  have p': "prefix ''@title'' (drop 3 b2)" unfolding b2_def by simp
  have before: "\<forall>m<3. prefix ''@title'' (drop m b2) \<longrightarrow> tag_rest (drop (m + length ''@title'') b2) = None"
  proof (intro allI impI)
    fix m :: nat assume "m < 3" and pre: "prefix ''@title'' (drop m b2)"
    then consider "m = 0" | "m = 1" | "m = 2" by linarith
    then have "\<not> prefix ''@title'' (drop m b2)"
      unfolding b2_def by cases simp_all
    with pre show "tag_rest (drop (m + length ''@title'') b2) = None" by contradiction
  qed
  note X = extractSolidityDocs_title_match[where content = x]
  note X2 = X[THEN conjunct2, THEN conjunct1]
  from X2 e2 have bx: "doc_blocks x = []" by simp
  note A = extractSolidityDocs_title_match[where content = c1 and b = b1]
  note A1 = A[THEN conjunct1]
  note A2 = A[THEN conjunct2, THEN conjunct1]
  note A7 = A[THEN conjunct2, THEN conjunct2, THEN conjunct2, THEN conjunct2, THEN conjunct2,
      THEN conjunct2, THEN conjunct1]
  from A2 e1 bx have blocks1: "doc_blocks c1 = [b1]" by simp
  from A7 n1 have "solidity_record b1 = []" by blast
  with A1 blocks1 have r1: "extractSolidityDocs_text c1 = []" by simp
  note B = extractSolidityDocs_title_match[where content = c2 and b = b2 and tag = "''@title''"
      and cap = "''Vault''" and title = "''Vault''"]
  note B1 = B[THEN conjunct1]
  note B2 = B[THEN conjunct2, THEN conjunct1]
  note B6 = B[THEN conjunct2, THEN conjunct2, THEN conjunct2, THEN conjunct2, THEN conjunct2,
      THEN conjunct1]
  note B8 = B[THEN conjunct2, THEN conjunct2, THEN conjunct2, THEN conjunct2, THEN conjunct2,
      THEN conjunct2, THEN conjunct2, THEN conjunct1]
  note B9 = B[THEN conjunct2, THEN conjunct2, THEN conjunct2, THEN conjunct2, THEN conjunct2,
      THEN conjunct2, THEN conjunct2, THEN conjunct2, THEN conjunct1]
  note B12 = B[THEN conjunct2, THEN conjunct2, THEN conjunct2, THEN conjunct2, THEN conjunct2,
      THEN conjunct2, THEN conjunct2, THEN conjunct2, THEN conjunct2, THEN conjunct2, THEN conjunct2,
      THEN conjunct1]
  have ex: "\<exists>n ws c. ws \<noteq> [] \<and> list_all is_space ws \<and> \<not> is_line_terminator c
      \<and> prefix (''@title'' @ ws @ [c]) (drop n b2)"
  proof (intro exI conjI)
    show "prefix (''@title'' @ '' '' @ [CHR ''V'']) (drop 3 b2)" using p by simp
    show "'' '' \<noteq> []" by simp
    show "list_all is_space '' ''" by (simp add: is_space_def)
    show "\<not> is_line_terminator (CHR ''V'')" by (simp add: is_line_terminator_def)
  qed
  with B6 have ne: "solidity_record b2 \<noteq> []" by blast
  from B12 p' tr before have t: "match_tag ''@title'' b2 = Some ''Vault''" by blast
  note C = extractSolidityDocs_title_match[where b = b2 and tag = "''@category''"]
  note D = extractSolidityDocs_title_match[where b = b2 and tag = "''@chapter''"]
  note E = extractSolidityDocs_title_match[where b = b2 and tag = "''@notice''"]
  note C10 = C[THEN conjunct2, THEN conjunct2, THEN conjunct2, THEN conjunct2, THEN conjunct2,
      THEN conjunct2, THEN conjunct2, THEN conjunct2, THEN conjunct2, THEN conjunct1]
  note D10 = D[THEN conjunct2, THEN conjunct2, THEN conjunct2, THEN conjunct2, THEN conjunct2,
      THEN conjunct2, THEN conjunct2, THEN conjunct2, THEN conjunct2, THEN conjunct1]
  note E10 = E[THEN conjunct2, THEN conjunct2, THEN conjunct2, THEN conjunct2, THEN conjunct2,
      THEN conjunct2, THEN conjunct2, THEN conjunct2, THEN conjunct2, THEN conjunct1]
  from C10 D10 E10 n2 have m: "match_tag ''@category'' b2 = None" "match_tag ''@chapter'' b2 = None"
    "match_tag ''@notice'' b2 = None" by blast+
  from B8 t have rec: "solidity_record b2 =
          [\<lparr>doc_name = trim ''Vault'',
            doc_category = tag_field ''@category'' b2,
            doc_chapter = tag_field ''@chapter'' b2,
            doc_description = (case match_tag ''@notice'' b2 of None \<Rightarrow> [] | Some d \<Rightarrow> trim d)\<rparr>]"
    by blast
  from B9 m have "\<forall>r \<in> set (solidity_record b2).
      doc_category r = ''general'' \<and> doc_chapter r = ''general'' \<and> doc_description r = []"
    by blast
  with rec have f: "tag_field ''@category'' b2 = ''general''" "tag_field ''@chapter'' b2 = ''general''"
    by simp_all
  from rec f m trim have rec': "solidity_record b2 =
      [\<lparr>doc_name = ''Vault'', doc_category = ''general'', doc_chapter = ''general'',
         doc_description = []\<rparr>]"
    by simp
  from B2 e3 bx have blocks2: "doc_blocks c2 = [b2]" by simp
  with B1 rec' have r2: "extractSolidityDocs_text c2 =
      [\<lparr>doc_name = ''Vault'', doc_category = ''general'', doc_chapter = ''general'',
         doc_description = []\<rparr>]"
    by simp
  from e1 n1 r1 p ne tr t m r2 show ?thesis
    unfolding c1_def b1_def c2_def b2_def x_def by (intro conjI)
qed

subsection \<open>The category and chapter of a record\<close>




subsection \<open>The API reference\<close>

lemma function_names_None: "function_exec content = None \<Longrightarrow> function_names content = []"
  by (subst function_names.simps) simp

lemma function_names_Some:
  "function_exec content = Some (fn, rest) \<Longrightarrow> function_names content = fn # function_names rest"
  by (subst function_names.simps) simp

lemma takeWhile_all: "list_all P (takeWhile P xs)"
  by (auto simp: list_all_iff dest: set_takeWhileD)

lemma dropWhile_starts:
  "dropWhile P xs \<noteq> [] \<Longrightarrow> \<exists>rest. dropWhile P xs = hd (dropWhile P xs) # rest \<and> \<not> P (hd (dropWhile P xs))"
  using hd_dropWhile[of P xs] by (cases "dropWhile P xs") auto

lemma function_at_Some:
  assumes "function_at s = Some (fn, rest)"
  shows "fn \<noteq> [] \<and> list_all is_word fn
    \<and> (\<exists>ws ws' args mid.
          s = ''function'' @ ws @ fn @ ws' @ ''('' @ args @ '')'' @ mid @ ''{'' @ rest
          \<and> ws \<noteq> [] \<and> list_all is_space ws \<and> list_all is_space ws'
          \<and> CHR '')'' \<notin> set args \<and> CHR ''{'' \<notin> set mid)"
proof -
  define r1 where "r1 = drop 8 s"
  define ws where "ws = takeWhile is_space r1"
  define r2 where "r2 = dropWhile is_space r1"
  define r2' where "r2' = dropWhile is_word r2"
  define ws' where "ws' = takeWhile is_space r2'"
  define r3 where "r3 = dropWhile is_space r2'"
  define args where "args = takeWhile (\<lambda>c. c \<noteq> CHR '')'') (tl r3)"
  define r4 where "r4 = dropWhile (\<lambda>c. c \<noteq> CHR '')'') (tl r3)"
  define mid where "mid = takeWhile (\<lambda>c. c \<noteq> CHR ''{'') (tl r4)"
  define r5 where "r5 = dropWhile (\<lambda>c. c \<noteq> CHR ''{'') (tl r4)"
  from assms have pre: "prefix ''function'' s" and wsne: "ws \<noteq> []"
    and fn: "fn = takeWhile is_word r2" and fnne: "fn \<noteq> []"
    and par: "prefix ''('' r3" and r4ne: "r4 \<noteq> []" and r5ne: "r5 \<noteq> []" and rest: "rest = tl r5"
    unfolding function_at_def Let_def r1_def ws_def r2_def r2'_def r3_def r4_def r5_def
    by (auto split: if_splits)
  from pre have s: "s = ''function'' @ r1" unfolding r1_def by (auto simp: prefix_def)
  have e1: "r1 = ws @ r2" unfolding ws_def r2_def by simp
  have e2: "r2 = fn @ r2'" unfolding fn r2'_def by simp
  have e3: "r2' = ws' @ r3" unfolding ws'_def r3_def by simp
  from par have e4: "r3 = ''('' @ tl r3" by (cases r3) (auto simp: prefix_def)
  have e5: "tl r3 = args @ r4" unfolding args_def r4_def by simp
  from r4ne have "hd r4 = CHR '')''"
    unfolding r4_def using hd_dropWhile[of "\<lambda>c. c \<noteq> CHR '')''" "tl r3"] by simp
  with r4ne have e6: "r4 = '')'' @ tl r4" by (cases r4) auto
  have e7: "tl r4 = mid @ r5" unfolding mid_def r5_def by simp
  from r5ne have "hd r5 = CHR ''{''"
    unfolding r5_def using hd_dropWhile[of "\<lambda>c. c \<noteq> CHR ''{''" "tl r4"] by simp
  with r5ne rest have e8: "r5 = ''{'' @ rest" by (cases r5) auto
  have "s = ''function'' @ ws @ fn @ ws' @ ''('' @ args @ '')'' @ mid @ ''{'' @ rest"
    by (subst s, subst e1, subst e2, subst e3, subst e4, subst e5, subst e6, subst e7, subst e8) simp
  moreover have "list_all is_space ws" "list_all is_space ws'" "list_all is_word fn"
    unfolding ws_def ws'_def fn by (rule takeWhile_all)+
  moreover have "CHR '')'' \<notin> set args" unfolding args_def by (auto dest: set_takeWhileD)
  moreover have "CHR ''{'' \<notin> set mid" unfolding mid_def by (auto dest: set_takeWhileD)
  ultimately show ?thesis using fnne wsne by blast
qed

lemma function_exec_Some:
  "function_exec s = Some (fn, rest) \<Longrightarrow>
     fn \<noteq> [] \<and> list_all is_word fn
     \<and> (\<exists>before ws ws' args mid.
          s = before @ ''function'' @ ws @ fn @ ws' @ ''('' @ args @ '')'' @ mid @ ''{'' @ rest
          \<and> ws \<noteq> [] \<and> list_all is_space ws \<and> list_all is_space ws'
          \<and> CHR '')'' \<notin> set args \<and> CHR ''{'' \<notin> set mid)"
proof (induction s)
  case Nil
  then show ?case by simp
next
  case (Cons c cs)
  show ?case
  proof (cases "function_at (c # cs)")
    case None
    with Cons.prems have "function_exec cs = Some (fn, rest)" by simp
    from Cons.IH[OF this] obtain before ws ws' args mid where
      a: "fn \<noteq> []" "list_all is_word fn"
      and b: "cs = before @ ''function'' @ ws @ fn @ ws' @ ''('' @ args @ '')'' @ mid @ ''{'' @ rest"
      and d: "ws \<noteq> []" "list_all is_space ws" "list_all is_space ws'"
        "CHR '')'' \<notin> set args" "CHR ''{'' \<notin> set mid"
      by blast
    from b have "c # cs = (c # before) @ ''function'' @ ws @ fn @ ws' @ ''('' @ args @ '')'' @ mid @ ''{'' @ rest"
      by simp
    with a d show ?thesis by blast
  next
    case (Some a)
    with Cons.prems have "function_at (c # cs) = Some (fn, rest)" by simp
    from function_at_Some[OF this] show ?thesis by (metis append_Nil)
  qed
qed

lemma function_names_words:
  "\<forall>fn \<in> set (function_names content). fn \<noteq> [] \<and> list_all is_word fn"
proof (induction content rule: function_names.induct)
  case (1 content)
  show ?case
  proof (cases "function_exec content")
    case None
    then show ?thesis by (simp add: function_names_None)
  next
    case (Some m)
    obtain fn rest where m: "m = (fn, rest)" by (cases m) auto
    from "1.IH"[OF Some[unfolded m] refl]
    have "\<forall>fn \<in> set (function_names rest). fn \<noteq> [] \<and> list_all is_word fn" .
    with function_exec_Some[OF Some[unfolded m]] function_names_Some[OF Some[unfolded m]]
    show ?thesis by simp
  qed
qed

lemma contract_at_Some:
  assumes "contract_at s = Some name"
  shows "name \<noteq> [] \<and> list_all is_word name
    \<and> (\<exists>ws rest. s = ''contract'' @ ws @ name @ rest \<and> ws \<noteq> [] \<and> list_all is_space ws
          \<and> (rest = [] \<or> \<not> is_word (hd rest)))"
proof -
  define r1 where "r1 = drop 8 s"
  from assms have pre: "prefix ''contract'' s" and wsne: "takeWhile is_space r1 \<noteq> []"
    and n: "name = takeWhile is_word (dropWhile is_space r1)" and nne: "name \<noteq> []"
    unfolding contract_at_def r1_def by (auto split: if_splits)
  from pre have s: "s = ''contract'' @ r1" unfolding r1_def by (auto simp: prefix_def)
  have e1: "r1 = takeWhile is_space r1 @ dropWhile is_space r1" by simp
  have e2: "dropWhile is_space r1 = name @ dropWhile is_word (dropWhile is_space r1)"
    unfolding n by simp
  have "s = ''contract'' @ takeWhile is_space r1 @ name @ dropWhile is_word (dropWhile is_space r1)"
    by (subst s, subst e1, subst e2) simp
  moreover have "dropWhile is_word (dropWhile is_space r1) = []
      \<or> \<not> is_word (hd (dropWhile is_word (dropWhile is_space r1)))"
    using hd_dropWhile[of is_word "dropWhile is_space r1"] by blast
  moreover have "list_all is_space (takeWhile is_space r1)" "list_all is_word name"
    unfolding n by (rule takeWhile_all)+
  ultimately show ?thesis using nne wsne by blast
qed

lemma match_contract_Some:
  "match_contract s = Some name \<Longrightarrow>
     \<exists>k. contract_at (drop k s) = Some name \<and> (\<forall>j<k. contract_at (drop j s) = None)"
proof (induction s)
  case Nil
  then show ?case by simp
next
  case (Cons c cs)
  show ?case
  proof (cases "contract_at (c # cs)")
    case None
    with Cons.prems have "match_contract cs = Some name" by simp
    from Cons.IH[OF this] obtain k where k: "contract_at (drop k cs) = Some name"
      "\<forall>j<k. contract_at (drop j cs) = None" by blast
    have "\<forall>j<Suc k. contract_at (drop j (c # cs)) = None"
    proof (intro allI impI)
      fix j assume "j < Suc k"
      with None k(2) show "contract_at (drop j (c # cs)) = None" by (cases j) auto
    qed
    with k(1) show ?thesis by (intro exI[of _ "Suc k"]) simp
  next
    case (Some a)
    with Cons.prems have "contract_at (drop 0 (c # cs)) = Some name" by simp
    then show ?thesis by (intro exI[of _ 0]) simp
  qed
qed

lemma contract_at_not_prefix: "\<not> prefix ''contract'' s \<Longrightarrow> contract_at s = None"
  unfolding contract_at_def by simp

lemma match_contract_absent: "\<not> includes_str s ''contract'' \<Longrightarrow> match_contract s = None"
proof (induction s)
  case Nil
  then show ?case by simp
next
  case (Cons c cs)
  from Cons.prems have "\<not> prefix ''contract'' (c # cs)" and n: "\<not> includes_str cs ''contract''"
    by simp_all
  then have "contract_at (c # cs) = None" by (intro contract_at_not_prefix)
  with Cons.IH[OF n] show ?case by simp
qed

lemma map_of_fs_put: "map_of (fs_put p n f) q = (if q = p then Some n else map_of f q)"
proof (cases "map_of f p")
  case None
  then show ?thesis by (auto simp: fs_put_def map_add_def split: option.splits)
next
  case (Some a)
  have "map_of (map (\<lambda>(q, m). if q = p then (q, n) else (q, m)) f) q =
      (if q = p then (if map_of f p = None then None else Some n) else map_of f q)"
    by (induction f) auto
  with Some show ?thesis by (simp add: fs_put_def)
qed

lemma stat_fs_put: "p \<noteq> [] \<Longrightarrow> stat (fs_put p n f) q = (if q = p then Some n else stat f q)"
  by (simp add: stat_def map_of_fs_put)

lemma writeFileSync_Inr:
  assumes "writeFileSync p d w = (Inr x, w')"
  shows "p \<noteq> [] \<and> w' = w\<lparr>fs := fs_put p (File d) (fs w)\<rparr>"
  using assms
  by (auto simp: writeFileSync_def split: if_splits option.splits node.splits)

lemma writeFileSync_stat:
  assumes "writeFileSync p d w = (Inr x, w')"
  shows "stat (fs w') q = (if q = p then Some (File d) else stat (fs w) q)"
  using writeFileSync_Inr[OF assms] by (simp add: stat_fs_put)

lemma writeFileSync_abort:
  "writeFileSync p d w = (Inl a, w') \<Longrightarrow> w' = w"
  by (auto simp: writeFileSync_def split: if_splits option.splits node.splits)

lemma readFileSync_Inr:
  "readFileSync p w = (Inr content, w') \<Longrightarrow> w' = w \<and> stat (fs w) p = Some (File content)"
  by (auto simp: readFileSync_def split: option.splits node.splits)

lemma readFileSync_abort: "readFileSync p w = (Inl a, w') \<Longrightarrow> w' = w"
  by (auto simp: readFileSync_def split: option.splits node.splits)

lemma generateAPIReference_Inr:
  assumes "generateAPIReference contractPath outputPath w = (Inr x, w')"
  shows "\<exists>content. stat (fs w) contractPath = Some (File content)
     \<and> writeFileSync (path_join outputPath ''api-reference.md'') (api_text content) w = (Inr (), w')"
proof (cases "readFileSync contractPath w")
  case (Pair r w1)
  show ?thesis
  proof (cases r)
    case (Inl a)
    with Pair assms show ?thesis by (simp add: generateAPIReference_def io_bind_def)
  next
    case (Inr content)
    with Pair readFileSync_Inr[of contractPath w content w1]
    have "w1 = w" "stat (fs w) contractPath = Some (File content)" by simp_all
    with Pair Inr assms show ?thesis by (auto simp: generateAPIReference_def io_bind_def)
  qed
qed

text \<open>
  Claim C9 fails on an overloaded function: the loop pushes the name of every match, and
  nothing removes a name that is already there.
\<close>

theorem api_reference_repeats_overloaded_name:
  \<open>function_names ''contract C { function f() public {} function f(uint a) public {} }'' = [''f'', ''f'']
   \<and> api_text ''contract C { function f() public {} function f(uint a) public {} }'' =
       ''# API Reference'' @ newline @ newline @ ''## C'' @ newline @ newline
       @ ''### Functions'' @ newline @ newline
       @ ''- `f()`'' @ newline @ ''- `f()`'' @ newline @ newline\<close>
proof -
  define c where "c = ''contract C { function f() public {} function f(uint a) public {} }''"
  have e1: "function_exec c = Some (''f'', ''} function f(uint a) public {} }'')"
    unfolding c_def by code_simp
  have e2: "function_exec ''} function f(uint a) public {} }'' = Some (''f'', ''} }'')"
    by code_simp
  have e3: "function_exec ''} }'' = None" by code_simp
  have names: "function_names c = [''f'', ''f'']"
    by (simp only: function_names_Some[OF e1] function_names_Some[OF e2] function_names_None[OF e3])
  have m: "match_contract c = Some ''C''" unfolding c_def by code_simp
  have "api_text c = ''# API Reference'' @ newline @ newline @ ''## C'' @ newline @ newline
       @ ''### Functions'' @ newline @ newline
       @ ''- `f()`'' @ newline @ ''- `f()`'' @ newline @ newline"
    unfolding api_text_def names m by simp
  with names show ?thesis unfolding c_def by (rule conjI)
qed

lemma is_word_not_space: "is_word c \<Longrightarrow> \<not> is_space c"
proof
  assume w: "is_word c" and s: "is_space c"
  from s have "(of_char c :: nat) \<in> {9, 10, 11, 12, 13, 32}"
    by (auto simp: is_space_def)
  with w show False by (auto simp: is_word_def)
qed

lemma takeWhile_run:
  assumes "list_all P xs" and "ys = [] \<or> \<not> P (hd ys)"
  shows "takeWhile P (xs @ ys) = xs" and "dropWhile P (xs @ ys) = ys"
proof -
  from assms(2) have t: "takeWhile P ys = []" and d: "dropWhile P ys = ys"
    by (cases ys; simp)+
  from assms(1) have a: "\<And>x. x \<in> set xs \<Longrightarrow> P x" by (simp add: list_all_iff)
  show "takeWhile P (xs @ ys) = xs" using a t by (simp add: takeWhile_append2)
  show "dropWhile P (xs @ ys) = ys" using a d by (simp add: dropWhile_append2)
qed

lemma contract_at_here:
  assumes "found \<noteq> []" and "list_all is_word found" and "ws \<noteq> []" and "list_all is_space ws"
    and "rest = [] \<or> \<not> is_word (hd rest)"
  shows "contract_at (''contract'' @ ws @ found @ rest) = Some found"
proof -
  from assms(1,2) have "is_word (hd found)" by (cases found) auto
  then have "\<not> is_space (hd found)" by (rule is_word_not_space)
  with assms(1) have "found @ rest = [] \<or> \<not> is_space (hd (found @ rest))" by simp
  from takeWhile_run[OF assms(4) this]
  have 1: "takeWhile is_space (ws @ found @ rest) = ws" "dropWhile is_space (ws @ found @ rest) = found @ rest" .
  from takeWhile_run[OF assms(2,5)] have 2: "takeWhile is_word (found @ rest) = found" by simp
  show ?thesis using assms(1,3) by (simp add: contract_at_def 1 2)
qed

lemma contract_at_iff:
  "contract_at s = Some found \<longleftrightarrow>
     found \<noteq> [] \<and> list_all is_word found
     \<and> (\<exists>ws rest. s = ''contract'' @ ws @ found @ rest \<and> ws \<noteq> [] \<and> list_all is_space ws
           \<and> (rest = [] \<or> \<not> is_word (hd rest)))"
proof
  assume "contract_at s = Some found"
  from contract_at_Some[OF this]
  show "found \<noteq> [] \<and> list_all is_word found
     \<and> (\<exists>ws rest. s = ''contract'' @ ws @ found @ rest \<and> ws \<noteq> [] \<and> list_all is_space ws
           \<and> (rest = [] \<or> \<not> is_word (hd rest)))" .
next
  assume "found \<noteq> [] \<and> list_all is_word found
     \<and> (\<exists>ws rest. s = ''contract'' @ ws @ found @ rest \<and> ws \<noteq> [] \<and> list_all is_space ws
           \<and> (rest = [] \<or> \<not> is_word (hd rest)))"
  then obtain ws rest where a: "found \<noteq> []" "list_all is_word found" "ws \<noteq> []" "list_all is_space ws"
    "rest = [] \<or> \<not> is_word (hd rest)" and s: "s = ''contract'' @ ws @ found @ rest"
    by blast
  from contract_at_here[OF a] show "contract_at s = Some found" unfolding s .
qed

lemma contract_at_Nil: "contract_at [] = None"
  by (simp add: contract_at_def)

lemma match_contract_leftmost:
  "match_contract s = Some found \<longleftrightarrow>
     (\<exists>n. contract_at (drop n s) = Some found \<and> (\<forall>m<n. contract_at (drop m s) = None))"
proof -
  have "match_contract s = Some found \<longleftrightarrow>
      (\<exists>n<length s. contract_at (drop n s) = Some found \<and> (\<forall>m<n. contract_at (drop m s) = None))"
    by (rule leftmost_Some) simp_all
  moreover have "n < length s" if "contract_at (drop n s) = Some found" for n
  proof (rule ccontr)
    assume "\<not> n < length s"
    then have "drop n s = []" by simp
    with that contract_at_Nil show False by simp
  qed
  ultimately show ?thesis by blast
qed

lemma match_contract_nowhere:
  "match_contract s = None \<longleftrightarrow> (\<forall>n. contract_at (drop n s) = None)"
proof -
  have "match_contract s = None \<longleftrightarrow> (\<forall>n<length s. contract_at (drop n s) = None)"
    by (rule leftmost_None) simp_all
  moreover have "contract_at (drop n s) = None" if "\<not> n < length s" for n
    using that by (simp add: contract_at_Nil)
  ultimately show ?thesis by blast
qed

lemma function_at_here:
  assumes fn: "fn \<noteq> []" "list_all is_word fn" and ws: "ws \<noteq> []" "list_all is_space ws"
    and ws': "list_all is_space ws'" and args: "CHR '')'' \<notin> set args" and mid: "CHR ''{'' \<notin> set mid"
  shows "function_at (''function'' @ ws @ fn @ ws' @ ''('' @ args @ '')'' @ mid @ ''{'' @ rest)
      = Some (fn, rest)"
proof -
  define r5 where "r5 = ''{'' @ rest"
  define r4 where "r4 = '')'' @ mid @ r5"
  define r3 where "r3 = ''('' @ args @ r4"
  define r2' where "r2' = ws' @ r3"
  define r2 where "r2 = fn @ r2'"
  define r1 where "r1 = ws @ r2"
  have s: "''function'' @ ws @ fn @ ws' @ ''('' @ args @ '')'' @ mid @ ''{'' @ rest = ''function'' @ r1"
    unfolding r1_def r2_def r2'_def r3_def r4_def r5_def by simp
  from fn have "is_word (hd fn)" by (cases fn) auto
  then have "\<not> is_space (hd fn)" by (rule is_word_not_space)
  with fn(1) have "r2 = [] \<or> \<not> is_space (hd r2)" unfolding r2_def by simp
  from takeWhile_run[OF ws(2) this]
  have 1: "takeWhile is_space r1 = ws" "dropWhile is_space r1 = r2" unfolding r1_def .
  have h3: "hd r3 = CHR ''(''" "r3 \<noteq> []" unfolding r3_def by simp_all
  have np: "\<not> is_word (CHR ''('')" "\<not> is_space (CHR ''('')"
    by (simp_all add: is_word_def is_space_def)
  have "r2' = [] \<or> \<not> is_word (hd r2')"
  proof (cases ws')
    case Nil
    with h3 np show ?thesis unfolding r2'_def by simp
  next
    case (Cons a as)
    with ws' have "is_space a" by simp
    then have "\<not> is_word a" using is_word_not_space by blast
    with Cons show ?thesis unfolding r2'_def by simp
  qed
  from takeWhile_run[OF fn(2) this]
  have 2: "takeWhile is_word r2 = fn" "dropWhile is_word r2 = r2'" unfolding r2_def .
  from h3 np have "r3 = [] \<or> \<not> is_space (hd r3)" by simp
  from takeWhile_run(2)[OF ws' this] have 3: "dropWhile is_space r2' = r3" unfolding r2'_def .
  have 4: "prefix ''('' r3" "tl r3 = args @ r4" unfolding r3_def by simp_all
  have "list_all (\<lambda>c. c \<noteq> CHR '')'') args" using args by (auto simp: list_all_iff)
  moreover have "r4 = [] \<or> \<not> (hd r4 \<noteq> CHR '')'')" unfolding r4_def by simp
  ultimately have 5: "dropWhile (\<lambda>c. c \<noteq> CHR '')'') (args @ r4) = r4" by (rule takeWhile_run(2))
  have 6: "r4 \<noteq> []" "tl r4 = mid @ r5" unfolding r4_def by simp_all
  have "list_all (\<lambda>c. c \<noteq> CHR ''{'') mid" using mid by (auto simp: list_all_iff)
  moreover have "r5 = [] \<or> \<not> (hd r5 \<noteq> CHR ''{'')" unfolding r5_def by simp
  ultimately have 7: "dropWhile (\<lambda>c. c \<noteq> CHR ''{'') (mid @ r5) = r5" by (rule takeWhile_run(2))
  have 8: "r5 \<noteq> []" "tl r5 = rest" unfolding r5_def by simp_all
  have "function_at (''function'' @ r1) = Some (fn, rest)"
    using fn(1) ws(1) by (simp add: function_at_def Let_def 1 2 3 4 5 6 7 8)
  then show ?thesis unfolding s .
qed

lemma function_at_iff:
  "function_at s = Some (fn, rest) \<longleftrightarrow>
     fn \<noteq> [] \<and> list_all is_word fn
     \<and> (\<exists>ws ws' args mid.
           s = ''function'' @ ws @ fn @ ws' @ ''('' @ args @ '')'' @ mid @ ''{'' @ rest
           \<and> ws \<noteq> [] \<and> list_all is_space ws \<and> list_all is_space ws'
           \<and> CHR '')'' \<notin> set args \<and> CHR ''{'' \<notin> set mid)"
proof
  assume "function_at s = Some (fn, rest)"
  from function_at_Some[OF this]
  show "fn \<noteq> [] \<and> list_all is_word fn
     \<and> (\<exists>ws ws' args mid.
           s = ''function'' @ ws @ fn @ ws' @ ''('' @ args @ '')'' @ mid @ ''{'' @ rest
           \<and> ws \<noteq> [] \<and> list_all is_space ws \<and> list_all is_space ws'
           \<and> CHR '')'' \<notin> set args \<and> CHR ''{'' \<notin> set mid)" .
next
  assume "fn \<noteq> [] \<and> list_all is_word fn
     \<and> (\<exists>ws ws' args mid.
           s = ''function'' @ ws @ fn @ ws' @ ''('' @ args @ '')'' @ mid @ ''{'' @ rest
           \<and> ws \<noteq> [] \<and> list_all is_space ws \<and> list_all is_space ws'
           \<and> CHR '')'' \<notin> set args \<and> CHR ''{'' \<notin> set mid)"
  then obtain ws ws' args mid where a: "fn \<noteq> []" "list_all is_word fn" "ws \<noteq> []" "list_all is_space ws"
    "list_all is_space ws'" "CHR '')'' \<notin> set args" "CHR ''{'' \<notin> set mid"
    and s: "s = ''function'' @ ws @ fn @ ws' @ ''('' @ args @ '')'' @ mid @ ''{'' @ rest"
    by blast
  from function_at_here[OF a] show "function_at s = Some (fn, rest)" unfolding s .
qed

lemma function_at_Nil: "function_at [] = None"
  by (simp add: function_at_def)

lemma function_exec_leftmost:
  "function_exec s = Some m \<longleftrightarrow>
     (\<exists>n. function_at (drop n s) = Some m \<and> (\<forall>k<n. function_at (drop k s) = None))"
proof -
  have "function_exec s = Some m \<longleftrightarrow>
      (\<exists>n<length s. function_at (drop n s) = Some m \<and> (\<forall>k<n. function_at (drop k s) = None))"
    by (rule leftmost_Some) simp_all
  moreover have "n < length s" if "function_at (drop n s) = Some m" for n
  proof (rule ccontr)
    assume "\<not> n < length s"
    then have "drop n s = []" by simp
    with that function_at_Nil show False by simp
  qed
  ultimately show ?thesis by blast
qed

lemma function_exec_nowhere:
  "function_exec s = None \<longleftrightarrow> (\<forall>n. function_at (drop n s) = None)"
proof -
  have "function_exec s = None \<longleftrightarrow> (\<forall>n<length s. function_at (drop n s) = None)"
    by (rule leftmost_None) simp_all
  moreover have "function_at (drop n s) = None" if "\<not> n < length s" for n
    using that by (simp add: function_at_Nil)
  ultimately show ?thesis by blast
qed

text \<open>
  Claim C9, amended. The reference is the title, a heading with the contract name, and,
  when some function was found, the heading \<open>Functions\<close> with one inline-code bullet per
  collected name, in order (first part). The contract name is the group of the leftmost
  match of \<open>contract\s+(\w+)\<close> in the whole text, comments included (second part), and
  \<open>Contract\<close> when the pattern matches nowhere (third part), as when the text
  \<open>contract\<close> does not occur (fourth part); the pattern matches at a position exactly
  when the text there is \<open>contract\<close>, white space and a word, and the group is that whole
  word (fifth part). The collected names are the names of the successive matches of the
  declaration pattern, each match adding its name whether or not it is already there, and
  each search starting after the previous match (sixth part); the match is the leftmost
  one (seventh part), and the search ends when the pattern matches nowhere (eighth part).
  The pattern matches at a position exactly when the text there is \<open>function\<close>, white
  space, the name, optional white space, an opening parenthesis, the text up to the next
  closing parenthesis and the text up to the next opening brace, wherever that brace is
  (ninth part). A call that returns has written that reference of the contract file to
  \<open>api-reference.md\<close> in the output directory (last part).
\<close>

theorem api_reference_lists_every_match:
  \<open>api_text content =
      ''# API Reference'' @ newline @ newline
      @ ''## '' @ (case match_contract content of Some name \<Rightarrow> name | None \<Rightarrow> ''Contract'')
      @ newline @ newline
      @ (if function_names content = [] then []
         else ''### Functions'' @ newline @ newline
              @ concat (map (\<lambda>fn. ''- `'' @ fn @ ''()`'' @ newline) (function_names content))
              @ newline)
   \<and> (match_contract content = Some found \<longleftrightarrow>
        (\<exists>n. contract_at (drop n content) = Some found
             \<and> (\<forall>m<n. contract_at (drop m content) = None)))
   \<and> (match_contract content = None \<longleftrightarrow> (\<forall>n. contract_at (drop n content) = None))
   \<and> (\<not> includes_str content ''contract'' \<longrightarrow> match_contract content = None)
   \<and> (contract_at s = Some found \<longleftrightarrow>
        found \<noteq> [] \<and> list_all is_word found
        \<and> (\<exists>ws after. s = ''contract'' @ ws @ found @ after \<and> ws \<noteq> [] \<and> list_all is_space ws
              \<and> (after = [] \<or> \<not> is_word (hd after))))
   \<and> function_names content =
       (case function_exec content of None \<Rightarrow> [] | Some (fn, rest) \<Rightarrow> fn # function_names rest)
   \<and> (function_exec content = Some (fn, rest) \<longleftrightarrow>
        (\<exists>n. function_at (drop n content) = Some (fn, rest)
             \<and> (\<forall>m<n. function_at (drop m content) = None)))
   \<and> (function_exec content = None \<longleftrightarrow> (\<forall>n. function_at (drop n content) = None))
   \<and> (function_at s = Some (fn, rest) \<longleftrightarrow>
        fn \<noteq> [] \<and> list_all is_word fn
        \<and> (\<exists>ws ws' args mid.
              s = ''function'' @ ws @ fn @ ws' @ ''('' @ args @ '')'' @ mid @ ''{'' @ rest
              \<and> ws \<noteq> [] \<and> list_all is_space ws \<and> list_all is_space ws'
              \<and> CHR '')'' \<notin> set args \<and> CHR ''{'' \<notin> set mid))
   \<and> (generateAPIReference contractPath outputPath w = (Inr (), w') \<longrightarrow>
        (\<exists>source. stat (fs w) contractPath = Some (File source)
           \<and> stat (fs w') (path_join outputPath ''api-reference.md'') = Some (File (api_text source))))\<close>
proof -
  have 1: \<open>api_text content =
      ''# API Reference'' @ newline @ newline
      @ ''## '' @ (case match_contract content of Some name \<Rightarrow> name | None \<Rightarrow> ''Contract'')
      @ newline @ newline
      @ (if function_names content = [] then []
         else ''### Functions'' @ newline @ newline
              @ concat (map (\<lambda>fn. ''- `'' @ fn @ ''()`'' @ newline) (function_names content))
              @ newline)\<close>
    by (simp add: api_text_def)
  have 2: "match_contract content = Some found \<longleftrightarrow>
        (\<exists>n. contract_at (drop n content) = Some found
             \<and> (\<forall>m<n. contract_at (drop m content) = None))"
    by (rule match_contract_leftmost)
  have 3: "match_contract content = None \<longleftrightarrow> (\<forall>n. contract_at (drop n content) = None)"
    by (rule match_contract_nowhere)
  have 4: "\<not> includes_str content ''contract'' \<longrightarrow> match_contract content = None"
    using match_contract_absent by blast
  have 5: "contract_at s = Some found \<longleftrightarrow>
        found \<noteq> [] \<and> list_all is_word found
        \<and> (\<exists>ws after. s = ''contract'' @ ws @ found @ after \<and> ws \<noteq> [] \<and> list_all is_space ws
              \<and> (after = [] \<or> \<not> is_word (hd after)))"
    by (rule contract_at_iff)
  have 6: "function_names content =
       (case function_exec content of None \<Rightarrow> [] | Some (fn, rest) \<Rightarrow> fn # function_names rest)"
    by (subst function_names.simps) simp
  have 7: "function_exec content = Some (fn, rest) \<longleftrightarrow>
        (\<exists>n. function_at (drop n content) = Some (fn, rest)
             \<and> (\<forall>m<n. function_at (drop m content) = None))"
    by (rule function_exec_leftmost)
  have 8: "function_exec content = None \<longleftrightarrow> (\<forall>n. function_at (drop n content) = None)"
    by (rule function_exec_nowhere)
  have 9: "function_at s = Some (fn, rest) \<longleftrightarrow>
        fn \<noteq> [] \<and> list_all is_word fn
        \<and> (\<exists>ws ws' args mid.
              s = ''function'' @ ws @ fn @ ws' @ ''('' @ args @ '')'' @ mid @ ''{'' @ rest
              \<and> ws \<noteq> [] \<and> list_all is_space ws \<and> list_all is_space ws'
              \<and> CHR '')'' \<notin> set args \<and> CHR ''{'' \<notin> set mid)"
    by (rule function_at_iff)
  have 10: "generateAPIReference contractPath outputPath w = (Inr (), w') \<longrightarrow>
        (\<exists>source. stat (fs w) contractPath = Some (File source)
           \<and> stat (fs w') (path_join outputPath ''api-reference.md'') = Some (File (api_text source)))"
  proof
    assume "generateAPIReference contractPath outputPath w = (Inr (), w')"
    from generateAPIReference_Inr[OF this] obtain source where
      t: "stat (fs w) contractPath = Some (File source)"
      and wr: "writeFileSync (path_join outputPath ''api-reference.md'') (api_text source) w = (Inr (), w')"
      by blast
    from writeFileSync_stat[OF wr, of "path_join outputPath ''api-reference.md''"] t
    show "\<exists>source. stat (fs w) contractPath = Some (File source)
           \<and> stat (fs w') (path_join outputPath ''api-reference.md'') = Some (File (api_text source))"
      by auto
  qed
  show ?thesis
    by (intro conjI) (rule 1 2 3 4 5 6 7 8 9 10)+
qed

theorem api_reference_lists_every_match_witness:
  \<open>contract_at (drop 5 (''// a contract showcases'' @ newline
       @ ''contract Box { function get() public view returns (uint) { return v; } }'')) = Some ''showcases''
   \<and> match_contract (''// a contract showcases'' @ newline
       @ ''contract Box { function get() public view returns (uint) { return v; } }'') = Some ''showcases''
   \<and> function_at ''function get() public view returns (uint) { return v; } }'' = Some (''get'', '' return v; } }'')
   \<and> function_names (''// a contract showcases'' @ newline
       @ ''contract Box { function get() public view returns (uint) { return v; } }'') = [''get'']
   \<and> api_text (''// a contract showcases'' @ newline
       @ ''contract Box { function get() public view returns (uint) { return v; } }'') =
       ''# API Reference'' @ newline @ newline @ ''## showcases'' @ newline @ newline
       @ ''### Functions'' @ newline @ newline @ ''- `get()`'' @ newline @ newline
   \<and> function_names ''interface I { function a(); function b(); } contract C { function c() {} }''
       = [''a'', ''c'']
   \<and> \<not> includes_str ''interface I { }'' ''contract''
   \<and> api_text ''interface I { }'' = ''# API Reference'' @ newline @ newline @ ''## Contract'' @ newline @ newline
   \<and> generateAPIReference [''contracts'', ''Box.sol''] [''docs'']
        \<lparr>fs = [([''contracts''], Directory), ([''contracts'', ''Box.sol''], File ''interface I { }''),
               ([''docs''], Directory)], cwd = [], stderr = []\<rparr> =
       (Inr (),
        \<lparr>fs = [([''contracts''], Directory), ([''contracts'', ''Box.sol''], File ''interface I { }''),
               ([''docs''], Directory),
               ([''docs'', ''api-reference.md''], File (api_text ''interface I { }''))],
         cwd = [], stderr = []\<rparr>)
   \<and> stat [([''contracts''], Directory), ([''contracts'', ''Box.sol''], File ''interface I { }''),
               ([''docs''], Directory),
               ([''docs'', ''api-reference.md''], File (api_text ''interface I { }''))]
         (path_join [''docs''] ''api-reference.md'') = Some (File (api_text ''interface I { }''))\<close>
proof -
  define c where "c = ''// a contract showcases'' @ newline
       @ ''contract Box { function get() public view returns (uint) { return v; } }''"
  define i where "i = ''interface I { function a(); function b(); } contract C { function c() {} }''"
  define j where "j = ''interface I { }''"
  define after where "after = newline
       @ ''contract Box { function get() public view returns (uint) { return v; } }''"
  define w0 where "w0 = \<lparr>fs = [([''contracts''], Directory),
      ([''contracts'', ''Box.sol''], File j), ([''docs''], Directory)],
      cwd = [], stderr = []\<rparr>"
  define w1 where "w1 = \<lparr>fs = [([''contracts''], Directory),
      ([''contracts'', ''Box.sol''], File j), ([''docs''], Directory),
      ([''docs'', ''api-reference.md''], File (api_text j))],
      cwd = [], stderr = []\<rparr>"
  note C = api_reference_lists_every_match[where content = c and found = "''showcases''"
      and s = "drop 5 c"]
  note F = api_reference_lists_every_match[
      where s = "''function get() public view returns (uint) { return v; } }''" and fn = "''get''"
      and rest = "'' return v; } }''" and content = "'' return v; } }''"]
  note I = api_reference_lists_every_match[where content = i]
  note I' = api_reference_lists_every_match[where content = "'' function c() {} }''"]
  note I'' = api_reference_lists_every_match[where content = "''} }''"]
  note J = api_reference_lists_every_match[where content = j
      and contractPath = "[''contracts'', ''Box.sol'']" and outputPath = "[''docs'']"
      and w = w0 and w' = w1]
  note C1 = C[THEN conjunct1]
  note C2 = C[THEN conjunct2, THEN conjunct1]
  note C5 = C[THEN conjunct2, THEN conjunct2, THEN conjunct2, THEN conjunct2, THEN conjunct1]
  note C6 = C[THEN conjunct2, THEN conjunct2, THEN conjunct2, THEN conjunct2, THEN conjunct2,
      THEN conjunct1]
  note F6 = F[THEN conjunct2, THEN conjunct2, THEN conjunct2, THEN conjunct2, THEN conjunct2,
      THEN conjunct1]
  note F9 = F[THEN conjunct2, THEN conjunct2, THEN conjunct2, THEN conjunct2, THEN conjunct2,
      THEN conjunct2, THEN conjunct2, THEN conjunct2, THEN conjunct1]
  note I6 = I[THEN conjunct2, THEN conjunct2, THEN conjunct2, THEN conjunct2, THEN conjunct2,
      THEN conjunct1]
  note I6' = I'[THEN conjunct2, THEN conjunct2, THEN conjunct2, THEN conjunct2, THEN conjunct2,
      THEN conjunct1]
  note I6'' = I''[THEN conjunct2, THEN conjunct2, THEN conjunct2, THEN conjunct2, THEN conjunct2,
      THEN conjunct1]
  note J1 = J[THEN conjunct1]
  note J4 = J[THEN conjunct2, THEN conjunct2, THEN conjunct2, THEN conjunct1]
  note J6 = J[THEN conjunct2, THEN conjunct2, THEN conjunct2, THEN conjunct2, THEN conjunct2,
      THEN conjunct1]
  note J10 = J[THEN conjunct2, THEN conjunct2, THEN conjunct2, THEN conjunct2, THEN conjunct2,
      THEN conjunct2, THEN conjunct2, THEN conjunct2, THEN conjunct2]
  have d5: "drop 5 c = ''contract'' @ '' '' @ ''showcases'' @ after"
    unfolding c_def after_def by simp
  have "''showcases'' \<noteq> [] \<and> list_all is_word ''showcases''
      \<and> (\<exists>ws rest. drop 5 c = ''contract'' @ ws @ ''showcases'' @ rest \<and> ws \<noteq> [] \<and> list_all is_space ws
            \<and> (rest = [] \<or> \<not> is_word (hd rest)))"
  proof (intro conjI exI)
    show "drop 5 c = ''contract'' @ '' '' @ ''showcases'' @ after" by (rule d5)
    show "list_all is_word ''showcases''" by code_simp
    show "list_all is_space '' ''" by code_simp
    show "after = [] \<or> \<not> is_word (hd after)" unfolding after_def by (simp add: newline_def is_word_def)
  qed simp_all
  with C5 have at: "contract_at (drop 5 c) = Some ''showcases''" by blast
  have before: "\<forall>m<5. contract_at (drop m c) = None"
  proof (intro allI impI)
    fix m :: nat assume "m < 5"
    then consider "m = 0" | "m = 1" | "m = 2" | "m = 3" | "m = 4" by linarith
    then have "\<not> prefix ''contract'' (drop m c)"
      unfolding c_def by cases simp_all
    then show "contract_at (drop m c) = None" by (rule contract_at_not_prefix)
  qed
  from C2 at before have m: "match_contract c = Some ''showcases''" by blast
  have "''get'' \<noteq> [] \<and> list_all is_word ''get''
      \<and> (\<exists>ws ws' args mid.
            ''function get() public view returns (uint) { return v; } }'' =
              ''function'' @ ws @ ''get'' @ ws' @ ''('' @ args @ '')'' @ mid @ ''{'' @ '' return v; } }''
            \<and> ws \<noteq> [] \<and> list_all is_space ws \<and> list_all is_space ws'
            \<and> CHR '')'' \<notin> set args \<and> CHR ''{'' \<notin> set mid)"
  proof (intro conjI exI)
    show "''function get() public view returns (uint) { return v; } }'' =
        ''function'' @ '' '' @ ''get'' @ [] @ ''('' @ [] @ '')'' @ '' public view returns (uint) '' @ ''{''
        @ '' return v; } }''"
      by simp
    show "list_all is_word ''get''" by code_simp
    show "list_all is_space '' ''" by code_simp
  qed simp_all
  with F9 have fa: "function_at ''function get() public view returns (uint) { return v; } }'' =
      Some (''get'', '' return v; } }'')"
    by blast
  have e1: "function_exec c = Some (''get'', '' return v; } }'')" unfolding c_def by code_simp
  have e2: "function_exec '' return v; } }'' = None" by code_simp
  from C6 F6 e1 e2 have names: "function_names c = [''get'']" by simp
  have i1: "function_exec i = Some (''a'', '' function c() {} }'')" unfolding i_def by code_simp
  have i2: "function_exec '' function c() {} }'' = Some (''c'', ''} }'')" by code_simp
  have i3: "function_exec ''} }'' = None" by code_simp
  from I6 I6' I6'' i1 i2 i3 have names_i: "function_names i = [''a'', ''c'']" by simp
  have ni: "\<not> includes_str j ''contract''" unfolding j_def by code_simp
  with J4 have mj: "match_contract j = None" by blast
  have j3: "function_exec j = None" unfolding j_def by code_simp
  with J6 have names_j: "function_names j = []" by simp
  from C1 have t1: "api_text c = ''# API Reference'' @ newline @ newline
       @ ''## showcases'' @ newline @ newline
       @ ''### Functions'' @ newline @ newline @ ''- `get()`'' @ newline @ newline"
    unfolding names m by simp
  from J1 have t2: "api_text j =
      ''# API Reference'' @ newline @ newline @ ''## Contract'' @ newline @ newline"
    unfolding names_j mj by simp
  have pj: "path_join [''docs''] ''api-reference.md'' = [''docs'', ''api-reference.md'']"
    by (simp add: path_join_simple simple_segment_def)
  have run: "generateAPIReference [''contracts'', ''Box.sol''] [''docs''] w0 = (Inr (), w1)"
    unfolding w0_def w1_def
    by (simp add: generateAPIReference_def io_bind_def readFileSync_def stat_def pj
        writeFileSync_def fs_put_def)
  from J10 run have "\<exists>source. stat (fs w0) [''contracts'', ''Box.sol''] = Some (File source)
           \<and> stat (fs w1) (path_join [''docs''] ''api-reference.md'') = Some (File (api_text source))"
    by blast
  moreover have "stat (fs w0) [''contracts'', ''Box.sol''] = Some (File j)"
    unfolding w0_def by (simp add: stat_def)
  ultimately have st: "stat (fs w1) (path_join [''docs''] ''api-reference.md'') = Some (File (api_text j))"
    by auto
  from at m fa names t1 names_i ni t2 run st show ?thesis
    unfolding c_def i_def j_def w0_def w1_def by simp
qed

subsection \<open>The reference left by generateDocumentation\<close>

lemma io_bind_cases:
  assumes "io_bind m f w = (r, w')"
  obtains (abort) a where "m w = (Inl a, w')" "r = Inl a"
        | (go) x w1 where "m w = (Inr x, w1)" "f x w1 = (r, w')"
  using assms by (auto simp: io_bind_def split: prod.splits sum.splits)

lemma mkdir_from_adds:
  "mkdir_from base ss f = Inr f' \<Longrightarrow>
     \<exists>g. f' = f @ g
        \<and> list_all (\<lambda>(q, n). n = Directory \<and> q \<noteq> [] \<and> prefix q (base @ ss) \<and> map_of f q = None) g"
proof (induction ss arbitrary: base f)
  case Nil
  then show ?case by simp
next
  case (Cons s ss)
  show ?case
  proof (cases "stat f (base @ [s])")
    case None
    with Cons.prems have "mkdir_from (base @ [s]) ss (f @ [(base @ [s], Directory)]) = Inr f'"
      by simp
    from Cons.IH[OF this] obtain g where g: "f' = (f @ [(base @ [s], Directory)]) @ g"
      and G: "list_all (\<lambda>(q, n). n = Directory \<and> q \<noteq> [] \<and> prefix q ((base @ [s]) @ ss)
          \<and> map_of (f @ [(base @ [s], Directory)]) q = None) g"
      by blast
    from None have here: "map_of f (base @ [s]) = None" by (simp add: stat_def)
    have "list_all (\<lambda>(q, n). n = Directory \<and> q \<noteq> [] \<and> prefix q (base @ s # ss) \<and> map_of f q = None)
        ((base @ [s], Directory) # g)"
      using G here by (auto simp: list_all_iff map_add_def split: option.splits if_splits)
    with g show ?thesis by (intro exI[of _ "(base @ [s], Directory) # g"]) simp
  next
    case (Some n)
    show ?thesis
    proof (cases n)
      case (File x)
      with Some Cons.prems show ?thesis by simp
    next
      case Directory
      with Some Cons.prems have "mkdir_from (base @ [s]) ss f = Inr f'" by simp
      from Cons.IH[OF this] show ?thesis by simp
    qed
  qed
qed

lemma mkdirSync_recursive_Inr:
  assumes "mkdirSync_recursive p w = (Inr x, w')"
  shows "\<exists>g. w' = w\<lparr>fs := fs w @ g\<rparr>
        \<and> list_all (\<lambda>(q, n). n = Directory \<and> q \<noteq> [] \<and> prefix q p \<and> map_of (fs w) q = None) g"
proof (cases "mkdir_from [] p (fs w)")
  case (Inl e)
  with assms show ?thesis by (simp add: mkdirSync_recursive_def)
next
  case (Inr f')
  from mkdir_from_adds[OF this] obtain g where "f' = fs w @ g"
    "list_all (\<lambda>(q, n). n = Directory \<and> q \<noteq> [] \<and> prefix q ([] @ p) \<and> map_of (fs w) q = None) g"
    by blast
  with Inr assms show ?thesis by (auto simp: mkdirSync_recursive_def)
qed

lemma stat_after_dirs:
  assumes "list_all (\<lambda>(q, n). n = Directory \<and> q \<noteq> [] \<and> prefix q p \<and> map_of f q = None) g"
  shows "stat f q = Some n \<Longrightarrow> stat (f @ g) q = Some n"
    and "stat (f @ g) q = Some (File c) \<Longrightarrow> stat f q = Some (File c)"
proof -
  show "stat f q = Some n \<Longrightarrow> stat (f @ g) q = Some n"
    by (simp add: stat_def map_add_def split: if_splits)
  assume a: "stat (f @ g) q = Some (File c)"
  show "stat f q = Some (File c)"
  proof (cases "map_of f q")
    case None
    with a have "q \<noteq> []" "map_of g q = Some (File c)"
      by (auto simp: stat_def map_add_def split: if_splits option.splits)
    then have "(q, File c) \<in> set g" by (simp add: map_of_SomeD)
    with assms show ?thesis by (auto simp: list_all_iff)
  next
    case (Some m)
    with a show ?thesis by (auto simp: stat_def map_add_def split: if_splits)
  qed
qed

lemma listing_after_dirs:
  assumes "list_all (\<lambda>(q, n). n = Directory \<and> q \<noteq> [] \<and> prefix q (base @ [d]) \<and> map_of f q = None) g"
    and "e \<noteq> d"
  shows "filter (\<lambda>(q, n). q \<noteq> [] \<and> butlast q = base @ [e]) (f @ g) =
         filter (\<lambda>(q, n). q \<noteq> [] \<and> butlast q = base @ [e]) f"
proof -
  have "filter (\<lambda>(q, n). q \<noteq> [] \<and> butlast q = base @ [e]) g = []"
  proof (rule ccontr)
    assume "filter (\<lambda>(q, n). q \<noteq> [] \<and> butlast q = base @ [e]) g \<noteq> []"
    then obtain q n where in_g: "(q, n) \<in> set g" and ne: "q \<noteq> []" and bl: "butlast q = base @ [e]"
      by (auto simp: filter_empty_conv)
    from in_g assms(1) have pre: "prefix q (base @ [d])" by (auto simp: list_all_iff)
    from ne bl have q: "q = base @ [e, last q]"
      by (metis append_butlast_last_id append_assoc append_Cons append_Nil)
    with pre have "length (base @ [e, last q]) \<le> length (base @ [d])"
      by (metis prefix_length_le)
    then show False by simp
  qed
  then show ?thesis by simp
qed

lemma extractSolidityDocs_cases:
  assumes "extractSolidityDocs p w = (r, w1)"
  shows "w1 = w \<and> (\<forall>ds. r = Inr ds \<longrightarrow>
           (\<exists>content. stat (fs w) p = Some (File content) \<and> ds = extractSolidityDocs_text content))"
  using assms
  by (auto simp: extractSolidityDocs_def io_bind_def ret_def readFileSync_def
      split: option.splits node.splits)

lemma process_contract_file_Inr:
  assumes run: "process_contract_file C D file w = (Inr ds, w1)"
  shows "if endsWith file ''.sol''
         then (\<exists>content. stat (fs w) (path_join C file) = Some (File content)
                 \<and> ds = extractSolidityDocs_text content
                 \<and> (\<forall>q. stat (fs w1) q =
                       (if q = path_join D ''api-reference.md'' then Some (File (api_text content))
                        else stat (fs w) q)))
         else w1 = w \<and> ds = []"
proof (cases "endsWith file ''.sol''")
  case False
  with run show ?thesis by (simp add: process_contract_file_def ret_def)
next
  case True
  with run have "io_bind (extractSolidityDocs (path_join C file)) (\<lambda>solidityDocs.
        io_bind (generateAPIReference (path_join C file) D) (\<lambda>_. ret solidityDocs)) w = (Inr ds, w1)"
    by (simp add: process_contract_file_def)
  then show ?thesis
  proof (cases rule: io_bind_cases)
    case (abort a)
    then show ?thesis by simp
  next
    case (go solidityDocs w0)
    from extractSolidityDocs_cases[OF go(1)] obtain content where w0: "w0 = w"
      and c: "stat (fs w) (path_join C file) = Some (File content)"
      and sd: "solidityDocs = extractSolidityDocs_text content" by auto
    from go(2) show ?thesis
    proof (cases rule: io_bind_cases)
      case (abort a)
      then show ?thesis by simp
    next
      case (go u w2)
      then have "w2 = w1" "ds = solidityDocs" by (simp_all add: ret_def)
      with go(1) w0 have "generateAPIReference (path_join C file) D w = (Inr u, w1)" by simp
      from generateAPIReference_Inr[OF this] c obtain
        wr: "writeFileSync (path_join D ''api-reference.md'') (api_text content) w = (Inr (), w1)"
        by auto
      from writeFileSync_stat[OF wr] c sd \<open>ds = solidityDocs\<close> True show ?thesis by auto
    qed
  qed
qed

lemma group_push_keys:
  "group_push k x t = Inr t' \<Longrightarrow> fst ` set t' \<subseteq> insert k (fst ` set t)"
proof -
  assume a: "group_push k x t = Inr t'"
  have m: "fst ` set (map (\<lambda>(ka, v). if ka = k then (ka, v @ [x]) else (ka, v)) t) = fst ` set t"
    by (induction t) auto
  from a consider "t' = t @ [(k, [x])]" | "t' = map (\<lambda>(ka, v). if ka = k then (ka, v @ [x]) else (ka, v)) t"
    by (auto simp: group_push_def split: option.splits js_value.splits)
  then show ?thesis
  proof cases
    case 1
    then show ?thesis by auto
  next
    case 2
    with m show ?thesis by auto
  qed
qed

lemma group_by_keys:
  "group_by key xs t = Inr t' \<Longrightarrow> fst ` set t' \<subseteq> fst ` set t \<union> key ` set xs"
proof (induction xs arbitrary: t)
  case Nil
  then show ?case by simp
next
  case (Cons x xs)
  show ?case
  proof (cases "group_push (key x) x t")
    case (Inl e)
    with Cons.prems show ?thesis by simp
  next
    case (Inr t1)
    with Cons.prems have "group_by key xs t1 = Inr t'" by simp
    from Cons.IH[OF this] group_push_keys[OF Inr] show ?thesis by auto
  qed
qed

lemma set_js_entries: "set (js_entries t) = set t"
  by (auto simp: js_entries_def)

lemma try_js_cases:
  assumes "try_js v w = (r, w')"
  shows "w' = w \<and> (case v of Inl e \<Rightarrow> r = Inl (Throw e) | Inr x \<Rightarrow> r = Inr x)"
  using assms by (auto simp: try_js_def throw_def ret_def split: sum.splits)

lemma writeFileSync_other:
  assumes "writeFileSync p d w = (r, w')" and "q \<noteq> p"
  shows "stat (fs w') q = stat (fs w) q"
proof (cases r)
  case (Inl a)
  with assms(1) writeFileSync_abort[of p d w a w'] show ?thesis by simp
next
  case (Inr x)
  with assms writeFileSync_stat[of p d w x w' q] show ?thesis by simp
qed

lemma write_chapter_other:
  assumes "write_chapter D e w = (r, w')" and "q \<noteq> path_join D (chapter_file (fst e))"
  shows "stat (fs w') q = stat (fs w) q"
proof -
  from assms(1) have "io_bind (try_js (group_by doc_category (snd e) [])) (\<lambda>byCategory.
     writeFileSync (path_join D (chapter_file (fst e)))
       (''# '' @ fst e @ '' Examples'' @ newline @ newline
        @ concat (map category_markdown (js_entries byCategory)))) w = (r, w')"
    by (simp add: write_chapter_def)
  then show ?thesis
  proof (cases rule: io_bind_cases)
    case (abort a)
    from try_js_cases[OF abort(1)] show ?thesis by simp
  next
    case (go byCategory w1)
    from try_js_cases[OF go(1)] have "w1 = w" by simp
    with go(2) writeFileSync_other[OF _ assms(2)] show ?thesis by blast
  qed
qed

lemma forEach_write_chapter_other:
  assumes "forEach (write_chapter D) es w = (r, w')"
    and "list_all (\<lambda>e. q \<noteq> path_join D (chapter_file (fst e))) es"
  shows "stat (fs w') q = stat (fs w) q"
  using assms
proof (induction es arbitrary: w r w')
  case Nil
  then show ?case by (simp add: ret_def)
next
  case (Cons e es)
  from Cons.prems(1) have "io_bind (write_chapter D e) (\<lambda>_. forEach (write_chapter D) es) w = (r, w')"
    by simp
  then show ?case
  proof (cases rule: io_bind_cases)
    case (abort a)
    from write_chapter_other[OF abort(1)] Cons.prems(2) show ?thesis by simp
  next
    case (go u w1)
    from write_chapter_other[OF go(1)] Cons.prems(2) have "stat (fs w1) q = stat (fs w) q" by simp
    moreover from Cons.IH[OF go(2)] Cons.prems(2) have "stat (fs w') q = stat (fs w1) q" by simp
    ultimately show ?thesis by simp
  qed
qed

lemma generateMarkdown_other:
  assumes "generateMarkdown docs D w = (r, w')"
    and "\<forall>d \<in> set docs. q \<noteq> path_join D (chapter_file (doc_chapter d))"
  shows "stat (fs w') q = stat (fs w) q"
proof -
  from assms(1) have "io_bind (try_js (group_by doc_chapter docs [])) (\<lambda>byChapter.
     forEach (write_chapter D) (js_entries byChapter)) w = (r, w')"
    by (simp add: generateMarkdown_def)
  then show ?thesis
  proof (cases rule: io_bind_cases)
    case (abort a)
    from try_js_cases[OF abort(1)] show ?thesis by simp
  next
    case (go byChapter w1)
    from try_js_cases[OF go(1)] have w1: "w1 = w" and g: "group_by doc_chapter docs [] = Inr byChapter"
      by (auto split: sum.splits)
    from group_by_keys[OF g] have "fst ` set (js_entries byChapter) \<subseteq> doc_chapter ` set docs"
      by (simp add: set_js_entries)
    with assms(2) have "list_all (\<lambda>e. q \<noteq> path_join D (chapter_file (fst e))) (js_entries byChapter)"
      unfolding list_all_iff by (metis (no_types, lifting) image_iff subsetD)
    from forEach_write_chapter_other[OF go(2) this] w1 show ?thesis by simp
  qed
qed

lemma io_bind_InrD:
  "io_bind m f w = (Inr y, w') \<Longrightarrow> \<exists>x w1. m w = (Inr x, w1) \<and> f x w1 = (Inr y, w')"
  by (auto simp: io_bind_def split: prod.splits sum.splits)

lemma readdirSync_Inr:
  "readdirSync p w = (Inr files, w') \<Longrightarrow>
     w' = w \<and> stat (fs w) p = Some Directory
     \<and> files = sort_names (map (\<lambda>(q, n). last q) (filter (\<lambda>(q, n). q \<noteq> [] \<and> butlast q = p) (fs w)))"
  by (auto simp: readdirSync_def split: option.splits node.splits)

lemma sol_is_not_api:
  assumes "simple_segment file" and "endsWith file ''.sol''"
  shows "path_join (here @ [''contracts'']) file \<noteq> path_join (here @ [''docs'']) ''api-reference.md''"
proof -
  have "path_join (here @ [''contracts'']) file = here @ [''contracts'', file]"
    using assms(1) by (simp add: path_join_simple)
  moreover have "path_join (here @ [''docs'']) ''api-reference.md'' = here @ [''docs'', ''api-reference.md'']"
    by (simp add: path_join_simple simple_segment_def)
  ultimately show ?thesis by simp
qed

lemma docs_stage:
  assumes "(if \<not> found then mkdirSync_recursive p else ret ()) w = (Inr x, w1)"
  shows "\<exists>g. w1 = w\<lparr>fs := fs w @ g\<rparr>
        \<and> list_all (\<lambda>(q, n). n = Directory \<and> q \<noteq> [] \<and> prefix q p \<and> map_of (fs w) q = None) g"
proof (cases found)
  case True
  with assms have "w1 = w" by (simp add: ret_def)
  then show ?thesis by (intro exI[of _ "[]"]) simp
next
  case False
  with assms have "mkdirSync_recursive p w = (Inr x, w1)" by simp
  from mkdirSync_recursive_Inr[OF this] show ?thesis .
qed

lemma set_insert_name: "set (insert_name x ys) = insert x (set ys)"
  by (induction ys) auto

lemma set_sort_names: "set (sort_names xs) = set xs"
  unfolding sort_names_def by (induction xs) (simp_all add: set_insert_name)

lemma stat_apart_from_dirs:
  assumes "list_all (\<lambda>(q, n). n = Directory \<and> q \<noteq> [] \<and> prefix q p \<and> map_of f q = None) g"
    and "\<not> prefix q p"
  shows "stat (f @ g) q = stat f q"
proof -
  have "map_of g q = None"
  proof (cases "map_of g q")
    case (Some n)
    then have "(q, n) \<in> set g" by (rule map_of_SomeD)
    with assms show ?thesis by (auto simp: list_all_iff)
  qed simp
  then show ?thesis by (simp add: stat_def map_add_def split: option.splits)
qed

lemma stat_file_after_dirs:
  assumes "list_all (\<lambda>(q, n). n = Directory \<and> q \<noteq> [] \<and> prefix q p \<and> map_of f q = None) g"
  shows "stat (f @ g) q = Some (File c) \<longleftrightarrow> stat f q = Some (File c)"
  using stat_after_dirs[OF assms] by blast

lemma process_test_file_cases:
  assumes "process_test_file T file w = (r, w1)"
  shows "w1 = w
     \<and> (\<forall>ds. r = Inr ds \<longrightarrow>
          (if endsWith file ''.test.ts'' \<or> endsWith file ''.spec.ts''
           then \<exists>c. stat (fs w) (path_join T file) = Some (File c) \<and> ds = extractTestDocs_text c
           else ds = []))"
  using assms
  by (auto simp: process_test_file_def extractTestDocs_def ret_def io_bind_def readFileSync_def
      split: if_splits option.splits node.splits)

lemma collect_test_files_exact:
  "collect (process_test_file T) files w = (Inr docs, w') \<Longrightarrow>
     w' = w
     \<and> (\<forall>d. d \<in> set docs \<longleftrightarrow>
           (\<exists>file \<in> set files. \<exists>c. (endsWith file ''.test.ts'' \<or> endsWith file ''.spec.ts'')
               \<and> stat (fs w) (path_join T file) = Some (File c) \<and> d \<in> set (extractTestDocs_text c)))"
proof (induction files arbitrary: docs w')
  case Nil
  then show ?case by (simp add: ret_def)
next
  case (Cons x xs)
  let ?t = "\<lambda>file. endsWith file ''.test.ts'' \<or> endsWith file ''.spec.ts''"
  from Cons.prems have "io_bind (process_test_file T x)
      (\<lambda>found. io_bind (collect (process_test_file T) xs) (\<lambda>more. ret (found @ more))) w = (Inr docs, w')"
    by simp
  from io_bind_InrD[OF this] obtain found w1 where
    s1: "process_test_file T x w = (Inr found, w1)"
    and r1: "io_bind (collect (process_test_file T) xs) (\<lambda>more. ret (found @ more)) w1 = (Inr docs, w')"
    by blast
  from process_test_file_cases[OF s1] have w1: "w1 = w"
    and f: "if ?t x then \<exists>c. stat (fs w) (path_join T x) = Some (File c) \<and> found = extractTestDocs_text c
            else found = []"
    by simp_all
  from io_bind_InrD[OF r1] obtain more w2 where
    s2: "collect (process_test_file T) xs w1 = (Inr more, w2)"
    and r2: "ret (found @ more) w2 = (Inr docs, w')" by blast
  from r2 have docs: "docs = found @ more" and w2: "w2 = w'" by (simp_all add: ret_def)
  from Cons.IH[OF s2[unfolded w1]] have w2': "w2 = w"
    and IH: "\<forall>d. d \<in> set more \<longleftrightarrow>
           (\<exists>file \<in> set xs. \<exists>c. ?t file
               \<and> stat (fs w) (path_join T file) = Some (File c) \<and> d \<in> set (extractTestDocs_text c))"
    by simp_all
  have fd: "\<forall>d. d \<in> set found \<longleftrightarrow>
      (\<exists>c. ?t x \<and> stat (fs w) (path_join T x) = Some (File c) \<and> d \<in> set (extractTestDocs_text c))"
  proof (cases "?t x")
    case True
    with f obtain c where "stat (fs w) (path_join T x) = Some (File c)" "found = extractTestDocs_text c"
      by auto
    with True show ?thesis by auto
  next
    case False
    with f show ?thesis by auto
  qed
  have "\<forall>d. d \<in> set docs \<longleftrightarrow>
           (\<exists>file \<in> set (x # xs). \<exists>c. ?t file
               \<and> stat (fs w) (path_join T file) = Some (File c) \<and> d \<in> set (extractTestDocs_text c))"
  proof
    fix d
    have "d \<in> set docs \<longleftrightarrow> d \<in> set found \<or> d \<in> set more" unfolding docs by simp
    also have "\<dots> \<longleftrightarrow> (\<exists>c. ?t x \<and> stat (fs w) (path_join T x) = Some (File c) \<and> d \<in> set (extractTestDocs_text c))
        \<or> (\<exists>file \<in> set xs. \<exists>c. ?t file
               \<and> stat (fs w) (path_join T file) = Some (File c) \<and> d \<in> set (extractTestDocs_text c))"
      using fd IH by simp
    also have "\<dots> \<longleftrightarrow> (\<exists>file \<in> set (x # xs). \<exists>c. ?t file
               \<and> stat (fs w) (path_join T file) = Some (File c) \<and> d \<in> set (extractTestDocs_text c))"
      by auto
    finally show "d \<in> set docs \<longleftrightarrow>
           (\<exists>file \<in> set (x # xs). \<exists>c. ?t file
               \<and> stat (fs w) (path_join T file) = Some (File c) \<and> d \<in> set (extractTestDocs_text c))" .
  qed
  with w2 w2' show ?case by simp
qed

lemma collect_contract_files_exact:
  assumes "collect (process_contract_file C D) files w = (Inr docs, w')"
    and "list_all (\<lambda>file. endsWith file ''.sol'' \<longrightarrow> path_join C file \<noteq> path_join D ''api-reference.md'') files"
  shows "(\<forall>q. q \<noteq> path_join D ''api-reference.md'' \<longrightarrow> stat (fs w') q = stat (fs w) q)
     \<and> (\<forall>d. d \<in> set docs \<longleftrightarrow>
           (\<exists>file \<in> set files. \<exists>c. endsWith file ''.sol''
              \<and> stat (fs w) (path_join C file) = Some (File c) \<and> d \<in> set (extractSolidityDocs_text c)))
     \<and> (filter (\<lambda>file. endsWith file ''.sol'') files \<noteq> [] \<longrightarrow>
          (\<exists>content.
             stat (fs w) (path_join C (last (filter (\<lambda>file. endsWith file ''.sol'') files))) = Some (File content)
             \<and> stat (fs w') (path_join D ''api-reference.md'') = Some (File (api_text content))))
     \<and> (filter (\<lambda>file. endsWith file ''.sol'') files = [] \<longrightarrow> w' = w)"
  using assms
proof (induction files arbitrary: docs w w')
  case Nil
  then show ?case by (simp add: ret_def)
next
  case (Cons x xs)
  let ?api = "path_join D ''api-reference.md''"
  let ?sol = "\<lambda>file. endsWith file ''.sol''"
  from Cons.prems(1) have "io_bind (process_contract_file C D x)
      (\<lambda>found. io_bind (collect (process_contract_file C D) xs) (\<lambda>more. ret (found @ more))) w = (Inr docs, w')"
    by simp
  from io_bind_InrD[OF this] obtain found w1 where
    s1: "process_contract_file C D x w = (Inr found, w1)"
    and r1: "io_bind (collect (process_contract_file C D) xs) (\<lambda>more. ret (found @ more)) w1 = (Inr docs, w')"
    by blast
  from io_bind_InrD[OF r1] obtain more w2 where
    s2: "collect (process_contract_file C D) xs w1 = (Inr more, w2)"
    and r2: "ret (found @ more) w2 = (Inr docs, w')" by blast
  from r2 have docs: "docs = found @ more" and w2: "w2 = w'" by (simp_all add: ret_def)
  note step = process_contract_file_Inr[OF s1]
  from Cons.prems(2) have rest_ok: "list_all (\<lambda>file. ?sol file \<longrightarrow> path_join C file \<noteq> ?api) xs"
    and x_ok: "?sol x \<longrightarrow> path_join C x \<noteq> ?api" by simp_all
  note IH = Cons.IH[OF s2[unfolded w2] rest_ok]
  from IH have IH1: "\<forall>q. q \<noteq> ?api \<longrightarrow> stat (fs w') q = stat (fs w1) q"
    and IH2: "\<forall>d. d \<in> set more \<longleftrightarrow>
           (\<exists>file \<in> set xs. \<exists>c. ?sol file
              \<and> stat (fs w1) (path_join C file) = Some (File c) \<and> d \<in> set (extractSolidityDocs_text c))"
    and IH3: "filter ?sol xs \<noteq> [] \<longrightarrow>
          (\<exists>content. stat (fs w1) (path_join C (last (filter ?sol xs))) = Some (File content)
             \<and> stat (fs w') ?api = Some (File (api_text content)))"
    and IH4: "filter ?sol xs = [] \<longrightarrow> w' = w1"
    by blast+
  have st1: "\<forall>q. q \<noteq> ?api \<longrightarrow> stat (fs w1) q = stat (fs w) q"
    using step by (auto split: if_splits)
  have xs_paths: "\<forall>file \<in> set xs. ?sol file \<longrightarrow> stat (fs w1) (path_join C file) = stat (fs w) (path_join C file)"
    using rest_ok st1 by (auto simp: list_all_iff)
  have more_w: "\<forall>d. d \<in> set more \<longleftrightarrow>
           (\<exists>file \<in> set xs. \<exists>c. ?sol file
              \<and> stat (fs w) (path_join C file) = Some (File c) \<and> d \<in> set (extractSolidityDocs_text c))"
  proof
    fix d
    show "d \<in> set more \<longleftrightarrow>
           (\<exists>file \<in> set xs. \<exists>c. ?sol file
              \<and> stat (fs w) (path_join C file) = Some (File c) \<and> d \<in> set (extractSolidityDocs_text c))"
      unfolding IH2[rule_format] using xs_paths by (metis (no_types, lifting))
  qed
  have found_w: "\<forall>d. d \<in> set found \<longleftrightarrow>
      (\<exists>c. ?sol x \<and> stat (fs w) (path_join C x) = Some (File c) \<and> d \<in> set (extractSolidityDocs_text c))"
  proof (cases "?sol x")
    case True
    with step obtain content where "stat (fs w) (path_join C x) = Some (File content)"
      "found = extractSolidityDocs_text content" by auto
    with True show ?thesis by auto
  next
    case False
    with step show ?thesis by auto
  qed
  have other: "\<forall>q. q \<noteq> ?api \<longrightarrow> stat (fs w') q = stat (fs w) q"
    using IH1 st1 by simp
  have exact: "\<forall>d. d \<in> set docs \<longleftrightarrow>
           (\<exists>file \<in> set (x # xs). \<exists>c. ?sol file
              \<and> stat (fs w) (path_join C file) = Some (File c) \<and> d \<in> set (extractSolidityDocs_text c))"
  proof
    fix d
    have "d \<in> set docs \<longleftrightarrow> d \<in> set found \<or> d \<in> set more" unfolding docs by simp
    also have "\<dots> \<longleftrightarrow>
        (\<exists>c. ?sol x \<and> stat (fs w) (path_join C x) = Some (File c) \<and> d \<in> set (extractSolidityDocs_text c))
        \<or> (\<exists>file \<in> set xs. \<exists>c. ?sol file
              \<and> stat (fs w) (path_join C file) = Some (File c) \<and> d \<in> set (extractSolidityDocs_text c))"
      using found_w more_w by simp
    also have "\<dots> \<longleftrightarrow> (\<exists>file \<in> set (x # xs). \<exists>c. ?sol file
              \<and> stat (fs w) (path_join C file) = Some (File c) \<and> d \<in> set (extractSolidityDocs_text c))"
      by auto
    finally show "d \<in> set docs \<longleftrightarrow>
           (\<exists>file \<in> set (x # xs). \<exists>c. ?sol file
              \<and> stat (fs w) (path_join C file) = Some (File c) \<and> d \<in> set (extractSolidityDocs_text c))" .
  qed
  have last_file: "filter ?sol (x # xs) \<noteq> [] \<longrightarrow> (\<exists>content'.
             stat (fs w) (path_join C (last (filter ?sol (x # xs)))) = Some (File content')
             \<and> stat (fs w') ?api = Some (File (api_text content')))"
  proof (cases "filter ?sol xs = []")
    case True
    with IH4 have eq: "w' = w1" by simp
    show ?thesis
    proof (cases "?sol x")
      case False
      with True show ?thesis by simp
    next
      case sx: True
      with step obtain content where "stat (fs w) (path_join C x) = Some (File content)"
        "stat (fs w1) ?api = Some (File (api_text content))" by auto
      with True sx eq show ?thesis by simp
    qed
  next
    case False
    with IH3 obtain content' where
      l: "stat (fs w1) (path_join C (last (filter ?sol xs))) = Some (File content')"
      and a: "stat (fs w') ?api = Some (File (api_text content'))" by blast
    have "last (filter ?sol xs) \<in> set (filter ?sol xs)" using False by (rule last_in_set)
    then have "last (filter ?sol xs) \<in> set xs" "?sol (last (filter ?sol xs))" by auto
    with xs_paths l have "stat (fs w) (path_join C (last (filter ?sol xs))) = Some (File content')"
      by simp
    with a False show ?thesis by auto
  qed
  have none: "filter ?sol (x # xs) = [] \<longrightarrow> w' = w"
  proof
    assume "filter ?sol (x # xs) = []"
    then have "\<not> ?sol x" "filter ?sol xs = []" by (auto split: if_splits)
    with step IH4 show "w' = w" by simp
  qed
  from other exact last_file none show ?case by blast
qed

lemma group_push_keys_eq:
  assumes "group_push k x t = Inr t'"
  shows "fst ` set t' = insert k (fst ` set t)"
proof -
  have m: "fst ` set (map (\<lambda>(ka, v). if ka = k then (ka, v @ [x]) else (ka, v)) t) = fst ` set t"
    by (induction t) auto
  from assms consider (new) "t' = t @ [(k, [x])]"
    | (old) xs where "map_of t k = Some xs" "t' = map (\<lambda>(ka, v). if ka = k then (ka, v @ [x]) else (ka, v)) t"
    by (auto simp: group_push_def js_get_def split: option.splits js_value.splits if_splits)
  then show ?thesis
  proof cases
    case new
    then show ?thesis by auto
  next
    case old
    from old(1) have "(k, xs) \<in> set t" by (rule map_of_SomeD)
    then have "k \<in> fst ` set t" by force
    with old(2) m show ?thesis by auto
  qed
qed

lemma group_by_keys_eq:
  "group_by key xs t = Inr t' \<Longrightarrow> fst ` set t' = fst ` set t \<union> key ` set xs"
proof (induction xs arbitrary: t)
  case Nil
  then show ?case by simp
next
  case (Cons x xs)
  show ?case
  proof (cases "group_push (key x) x t")
    case (Inl e)
    with Cons.prems show ?thesis by simp
  next
    case (Inr t1)
    with Cons.prems have "group_by key xs t1 = Inr t'" by simp
    from Cons.IH[OF this] group_push_keys_eq[OF Inr] show ?thesis by auto
  qed
qed

lemma write_chapter_hit:
  assumes "write_chapter D e w = (Inr u, w1)"
  shows "\<exists>body. stat (fs w1) (path_join D (chapter_file (fst e))) =
      Some (File (''# '' @ fst e @ '' Examples'' @ newline @ newline @ body))"
proof -
  from assms have "io_bind (try_js (group_by doc_category (snd e) [])) (\<lambda>byCategory.
     writeFileSync (path_join D (chapter_file (fst e)))
       (''# '' @ fst e @ '' Examples'' @ newline @ newline
        @ concat (map category_markdown (js_entries byCategory)))) w = (Inr u, w1)"
    by (simp add: write_chapter_def)
  from io_bind_InrD[OF this] obtain byCategory w0 where
    t: "try_js (group_by doc_category (snd e) []) w = (Inr byCategory, w0)"
    and wr: "writeFileSync (path_join D (chapter_file (fst e)))
       (''# '' @ fst e @ '' Examples'' @ newline @ newline
        @ concat (map category_markdown (js_entries byCategory))) w0 = (Inr u, w1)"
    by blast
  from writeFileSync_stat[OF wr, of "path_join D (chapter_file (fst e))"]
  show ?thesis by auto
qed

lemma forEach_write_chapter_hit:
  assumes "forEach (write_chapter D) es w = (Inr u, w')"
    and "\<exists>e \<in> set es. path_join D (chapter_file (fst e)) = q"
  shows "\<exists>e \<in> set es. \<exists>body. path_join D (chapter_file (fst e)) = q
      \<and> stat (fs w') q = Some (File (''# '' @ fst e @ '' Examples'' @ newline @ newline @ body))"
  using assms
proof (induction es arbitrary: w)
  case Nil
  then show ?case by simp
next
  case (Cons e es)
  from Cons.prems(1) have "io_bind (write_chapter D e) (\<lambda>_. forEach (write_chapter D) es) w = (Inr u, w')"
    by simp
  from io_bind_InrD[OF this] obtain v w1 where
    s1: "write_chapter D e w = (Inr v, w1)" and r1: "forEach (write_chapter D) es w1 = (Inr u, w')"
    by blast
  show ?case
  proof (cases "\<exists>e' \<in> set es. path_join D (chapter_file (fst e')) = q")
    case True
    from Cons.IH[OF r1 True] show ?thesis by auto
  next
    case False
    with Cons.prems(2) have here: "path_join D (chapter_file (fst e)) = q" by auto
    from False have "list_all (\<lambda>e. q \<noteq> path_join D (chapter_file (fst e))) es"
      by (auto simp: list_all_iff)
    from forEach_write_chapter_other[OF r1 this] have "stat (fs w') q = stat (fs w1) q" .
    with write_chapter_hit[OF s1] here show ?thesis by auto
  qed
qed

lemma generateMarkdown_hit:
  assumes "generateMarkdown docs D w = (Inr u, w')"
    and "\<exists>d \<in> set docs. path_join D (chapter_file (doc_chapter d)) = q"
  shows "\<exists>d \<in> set docs. \<exists>body. path_join D (chapter_file (doc_chapter d)) = q
      \<and> stat (fs w') q = Some (File (''# '' @ doc_chapter d @ '' Examples'' @ newline @ newline @ body))"
proof -
  from assms(1) have "io_bind (try_js (group_by doc_chapter docs [])) (\<lambda>byChapter.
     forEach (write_chapter D) (js_entries byChapter)) w = (Inr u, w')"
    by (simp add: generateMarkdown_def)
  from io_bind_InrD[OF this] obtain byChapter w1 where
    t: "try_js (group_by doc_chapter docs []) w = (Inr byChapter, w1)"
    and f: "forEach (write_chapter D) (js_entries byChapter) w1 = (Inr u, w')"
    by blast
  from try_js_cases[OF t] have g: "group_by doc_chapter docs [] = Inr byChapter"
    by (auto split: sum.splits)
  from group_by_keys_eq[OF g] have keys: "fst ` set (js_entries byChapter) = doc_chapter ` set docs"
    by (simp add: set_js_entries)
  from assms(2) obtain d where "d \<in> set docs" "path_join D (chapter_file (doc_chapter d)) = q" by blast
  with keys have "\<exists>e \<in> set (js_entries byChapter). path_join D (chapter_file (fst e)) = q"
    by (metis (no_types, lifting) image_iff)
  from forEach_write_chapter_hit[OF f this] obtain e body where
    e: "e \<in> set (js_entries byChapter)" "path_join D (chapter_file (fst e)) = q"
    "stat (fs w') q = Some (File (''# '' @ fst e @ '' Examples'' @ newline @ newline @ body))"
    by blast
  from e(1) keys obtain d' where d': "d' \<in> set docs" "doc_chapter d' = fst e"
    by (metis (no_types, lifting) image_iff)
  from e(2,3) have "path_join D (chapter_file (doc_chapter d')) = q
      \<and> stat (fs w') q = Some (File (''# '' @ doc_chapter d' @ '' Examples'' @ newline @ newline @ body))"
    unfolding d'(2) by (rule conjI)
  with d'(1) show ?thesis by blast
qed

lemma readdirSync_after_dirs:
  assumes g: "list_all (\<lambda>(q, n). n = Directory \<and> q \<noteq> [] \<and> prefix q (base @ [d]) \<and> map_of (fs w) q = None) g"
    and ne: "e \<noteq> d"
  shows "readdirSync (base @ [e]) (w\<lparr>fs := fs w @ g\<rparr>) = (Inr xs, w\<lparr>fs := fs w @ g\<rparr>)
     \<longleftrightarrow> readdirSync (base @ [e]) w = (Inr xs, w)"
proof -
  from ne have "\<not> prefix (base @ [e]) (base @ [d])" by simp
  from stat_apart_from_dirs[OF g this]
  have st: "stat (fs w @ g) (base @ [e]) = stat (fs w) (base @ [e])" .
  note ls = listing_after_dirs[OF g ne]
  show ?thesis
    by (simp add: readdirSync_def st ls split: option.splits node.splits del: filter_append)
qed

lemma test_stage_exact:
  assumes run: "(if found then io_bind (readdirSync T) (collect (process_test_file T)) else ret []) w
      = (Inr docs, w')"
    and found: "found = (stat (fs w) T \<noteq> None)"
  shows "w' = w
     \<and> (\<forall>d. d \<in> set docs \<longleftrightarrow>
           (\<exists>tests file c. readdirSync T w = (Inr tests, w) \<and> file \<in> set tests
               \<and> (endsWith file ''.test.ts'' \<or> endsWith file ''.spec.ts'')
               \<and> stat (fs w) (path_join T file) = Some (File c) \<and> d \<in> set (extractTestDocs_text c)))"
proof (cases found)
  case False
  with run have "w' = w" "docs = []" by (simp_all add: ret_def)
  moreover from False found have "\<And>tests. readdirSync T w \<noteq> (Inr tests, w)"
    by (simp add: readdirSync_def)
  ultimately show ?thesis by simp
next
  case True
  with run have "io_bind (readdirSync T) (collect (process_test_file T)) w = (Inr docs, w')" by simp
  from io_bind_InrD[OF this] obtain tests0 w1 where
    l: "readdirSync T w = (Inr tests0, w1)" and c: "collect (process_test_file T) tests0 w1 = (Inr docs, w')"
    by blast
  from readdirSync_Inr[OF l] have w1: "w1 = w" by simp
  from collect_test_files_exact[OF c[unfolded w1]] have w': "w' = w"
    and ex: "\<forall>d. d \<in> set docs \<longleftrightarrow>
           (\<exists>file \<in> set tests0. \<exists>c. (endsWith file ''.test.ts'' \<or> endsWith file ''.spec.ts'')
               \<and> stat (fs w) (path_join T file) = Some (File c) \<and> d \<in> set (extractTestDocs_text c))"
    by simp_all
  have "\<forall>d. d \<in> set docs \<longleftrightarrow>
           (\<exists>tests file c. readdirSync T w = (Inr tests, w) \<and> file \<in> set tests
               \<and> (endsWith file ''.test.ts'' \<or> endsWith file ''.spec.ts'')
               \<and> stat (fs w) (path_join T file) = Some (File c) \<and> d \<in> set (extractTestDocs_text c))"
  proof (intro allI iffI)
    fix d assume "d \<in> set docs"
    with ex obtain fl c where "fl \<in> set tests0" "endsWith fl ''.test.ts'' \<or> endsWith fl ''.spec.ts''"
      "stat (fs w) (path_join T fl) = Some (File c)" "d \<in> set (extractTestDocs_text c)" by blast
    with l[unfolded w1]
    show "\<exists>tests file c. readdirSync T w = (Inr tests, w) \<and> file \<in> set tests
               \<and> (endsWith file ''.test.ts'' \<or> endsWith file ''.spec.ts'')
               \<and> stat (fs w) (path_join T file) = Some (File c) \<and> d \<in> set (extractTestDocs_text c)"
      by blast
  next
    fix d assume "\<exists>tests file c. readdirSync T w = (Inr tests, w) \<and> file \<in> set tests
               \<and> (endsWith file ''.test.ts'' \<or> endsWith file ''.spec.ts'')
               \<and> stat (fs w) (path_join T file) = Some (File c) \<and> d \<in> set (extractTestDocs_text c)"
    then obtain tests fl c where t: "readdirSync T w = (Inr tests, w)" and r: "fl \<in> set tests"
      "endsWith fl ''.test.ts'' \<or> endsWith fl ''.spec.ts''"
      "stat (fs w) (path_join T fl) = Some (File c)" "d \<in> set (extractTestDocs_text c)" by blast
    from t l[unfolded w1] have "tests = tests0" by simp
    with r ex show "d \<in> set docs" by blast
  qed
  with w' show ?thesis by simp
qed

lemma generateDocumentation_stages:
  assumes run: "generateDocumentation w = (Inr (), w')"
  shows "\<exists>g testDocs solidityDocs w3.
      list_all (\<lambda>(q, n). n = Directory \<and> q \<noteq> [] \<and> prefix q (cwd w @ [''docs'']) \<and> map_of (fs w) q = None) g
    \<and> (if stat (fs w @ g) (cwd w @ [''test'']) \<noteq> None
        then io_bind (readdirSync (cwd w @ [''test''])) (collect (process_test_file (cwd w @ [''test''])))
        else ret []) (w\<lparr>fs := fs w @ g\<rparr>) = (Inr testDocs, w\<lparr>fs := fs w @ g\<rparr>)
    \<and> (if stat (fs w @ g) (cwd w @ [''contracts'']) \<noteq> None
        then io_bind (readdirSync (cwd w @ [''contracts'']))
               (collect (process_contract_file (cwd w @ [''contracts'']) (cwd w @ [''docs''])))
        else ret []) (w\<lparr>fs := fs w @ g\<rparr>) = (Inr solidityDocs, w3)
    \<and> (if testDocs @ solidityDocs \<noteq> []
        then generateMarkdown (testDocs @ solidityDocs) (cwd w @ [''docs''])
        else ret ()) w3 = (Inr (), w')"
proof -
  let ?D = "cwd w @ [''docs'']" and ?T = "cwd w @ [''test'']" and ?C = "cwd w @ [''contracts'']"
  have pj: "path_join (cwd w) ''docs'' = ?D" "path_join (cwd w) ''test'' = ?T"
    "path_join (cwd w) ''contracts'' = ?C"
    by (simp_all add: path_join_simple simple_segment_def)
  have bind_cwd: "\<And>f. io_bind process_cwd f w = f (cwd w) w"
    by (simp add: io_bind_def process_cwd_def)
  have bind_exists: "\<And>p f v r. io_bind (existsSync p) f v = r \<Longrightarrow> f (stat (fs v) p \<noteq> None) v = r"
    by (simp add: io_bind_def existsSync_def)
  from run[unfolded generateDocumentation_def bind_cwd pj]
  have "io_bind (existsSync ?D) (\<lambda>docs_found.
     io_bind (if \<not> docs_found then mkdirSync_recursive ?D else ret ()) (\<lambda>_.
     io_bind (existsSync ?T) (\<lambda>test_found.
     io_bind (if test_found then
                io_bind (readdirSync ?T) (collect (process_test_file ?T))
              else ret []) (\<lambda>testDocs.
     io_bind (existsSync ?C) (\<lambda>contracts_found.
     io_bind (if contracts_found then
                io_bind (readdirSync ?C) (collect (process_contract_file ?C ?D))
              else ret []) (\<lambda>solidityDocs.
     if testDocs @ solidityDocs \<noteq> []
     then generateMarkdown (testDocs @ solidityDocs) ?D
     else ret ())))))) w = (Inr (), w')" .
  from bind_exists[OF this]
  have r0: "io_bind (if \<not> stat (fs w) ?D \<noteq> None then mkdirSync_recursive ?D else ret ()) (\<lambda>_.
     io_bind (existsSync ?T) (\<lambda>test_found.
     io_bind (if test_found then
                io_bind (readdirSync ?T) (collect (process_test_file ?T))
              else ret []) (\<lambda>testDocs.
     io_bind (existsSync ?C) (\<lambda>contracts_found.
     io_bind (if contracts_found then
                io_bind (readdirSync ?C) (collect (process_contract_file ?C ?D))
              else ret []) (\<lambda>solidityDocs.
     if testDocs @ solidityDocs \<noteq> []
     then generateMarkdown (testDocs @ solidityDocs) ?D
     else ret ()))))) w = (Inr (), w')" .
  from io_bind_InrD[OF r0] obtain u w1 where
    s1: "(if \<not> stat (fs w) ?D \<noteq> None then mkdirSync_recursive ?D else ret ()) w = (Inr u, w1)"
    and r1: "io_bind (existsSync ?T) (\<lambda>test_found.
     io_bind (if test_found then
                io_bind (readdirSync ?T) (collect (process_test_file ?T))
              else ret []) (\<lambda>testDocs.
     io_bind (existsSync ?C) (\<lambda>contracts_found.
     io_bind (if contracts_found then
                io_bind (readdirSync ?C) (collect (process_contract_file ?C ?D))
              else ret []) (\<lambda>solidityDocs.
     if testDocs @ solidityDocs \<noteq> []
     then generateMarkdown (testDocs @ solidityDocs) ?D
     else ret ())))) w1 = (Inr (), w')"
    by blast
  from docs_stage[OF s1] obtain g where w1: "w1 = w\<lparr>fs := fs w @ g\<rparr>"
    and g: "list_all (\<lambda>(q, n). n = Directory \<and> q \<noteq> [] \<and> prefix q ?D \<and> map_of (fs w) q = None) g"
    by blast
  from bind_exists[OF r1]
  have r2: "io_bind (if stat (fs w1) ?T \<noteq> None then
                io_bind (readdirSync ?T) (collect (process_test_file ?T))
              else ret []) (\<lambda>testDocs.
     io_bind (existsSync ?C) (\<lambda>contracts_found.
     io_bind (if contracts_found then
                io_bind (readdirSync ?C) (collect (process_contract_file ?C ?D))
              else ret []) (\<lambda>solidityDocs.
     if testDocs @ solidityDocs \<noteq> []
     then generateMarkdown (testDocs @ solidityDocs) ?D
     else ret ()))) w1 = (Inr (), w')" .
  from io_bind_InrD[OF r2] obtain testDocs w2 where
    s3: "(if stat (fs w1) ?T \<noteq> None then io_bind (readdirSync ?T) (collect (process_test_file ?T))
          else ret []) w1 = (Inr testDocs, w2)"
    and r3: "io_bind (existsSync ?C) (\<lambda>contracts_found.
     io_bind (if contracts_found then
                io_bind (readdirSync ?C) (collect (process_contract_file ?C ?D))
              else ret []) (\<lambda>solidityDocs.
     if testDocs @ solidityDocs \<noteq> []
     then generateMarkdown (testDocs @ solidityDocs) ?D
     else ret ())) w2 = (Inr (), w')"
    by blast
  from test_stage_exact[OF s3 refl] have w2: "w2 = w1" by simp
  from bind_exists[OF r3[unfolded w2]]
  have r4: "io_bind (if stat (fs w1) ?C \<noteq> None then
                io_bind (readdirSync ?C) (collect (process_contract_file ?C ?D))
              else ret []) (\<lambda>solidityDocs.
     if testDocs @ solidityDocs \<noteq> []
     then generateMarkdown (testDocs @ solidityDocs) ?D
     else ret ()) w1 = (Inr (), w')" .
  from io_bind_InrD[OF r4] obtain solidityDocs w3 where
    s5: "(if stat (fs w1) ?C \<noteq> None then
            io_bind (readdirSync ?C) (collect (process_contract_file ?C ?D))
          else ret []) w1 = (Inr solidityDocs, w3)"
    and r5: "(if testDocs @ solidityDocs \<noteq> []
     then generateMarkdown (testDocs @ solidityDocs) ?D
     else ret ()) w3 = (Inr (), w')"
    by blast
  from g s3[unfolded w2] s5 r5 show ?thesis
    unfolding w1 by (intro exI[of _ g] exI[of _ testDocs] exI[of _ solidityDocs] exI[of _ w3]) simp
qed

lemma ends_sol: "endsWith ''A.sol'' ''.sol''" "endsWith ''B.sol'' ''.sol''"
  "\<not> endsWith ''NOTES.txt'' ''.sol''" "endsWith ''x.test.ts'' ''.test.ts''"
  unfolding endsWith_def by (simp_all add: suffix_def)

text \<open>
  Claim C10 fails when a chapter file takes the name of the reference: the chapter files
  are written after the contract files were processed, into the same directory, and a
  record whose chapter is \<open>API Reference\<close> goes to \<open>api-reference.md\<close>. With the two
  contract files below the run returns, and the file that is left is the chapter page, not
  the reference of \<open>B.sol\<close> (second part).
\<close>

theorem generateDocumentation_chapter_replaces_reference:
  \<open>generateDocumentation
      \<lparr>fs = [([''contracts''], Directory),
             ([''contracts'', ''A.sol''], File ''contract A { function a() {} }''),
             ([''contracts'', ''B.sol''],
              File (''/**'' @ newline @ '' * @title T'' @ newline @ '' * @chapter API Reference''
                    @ newline @ '' */'' @ newline @ ''contract B { function b() {} }''))],
       cwd = [], stderr = []\<rparr> =
     (Inr (),
      \<lparr>fs = [([''contracts''], Directory),
             ([''contracts'', ''A.sol''], File ''contract A { function a() {} }''),
             ([''contracts'', ''B.sol''],
              File (''/**'' @ newline @ '' * @title T'' @ newline @ '' * @chapter API Reference''
                    @ newline @ '' */'' @ newline @ ''contract B { function b() {} }'')),
             ([''docs''], Directory),
             ([''docs'', ''api-reference.md''],
              File (''# API Reference Examples'' @ newline @ newline @ ''## general'' @ newline
                    @ newline @ ''### T'' @ newline @ newline @ ''---'' @ newline @ newline))],
       cwd = [], stderr = []\<rparr>)
   \<and> api_text (''/**'' @ newline @ '' * @title T'' @ newline @ '' * @chapter API Reference''
                 @ newline @ '' */'' @ newline @ ''contract B { function b() {} }'') =
       ''# API Reference'' @ newline @ newline @ ''## B'' @ newline @ newline
       @ ''### Functions'' @ newline @ newline @ ''- `b()`'' @ newline @ newline\<close>
proof -
  define cA where "cA = ''contract A { function a() {} }''"
  define cB where "cB = ''/**'' @ newline @ '' * @title T'' @ newline
      @ '' * @chapter API Reference'' @ newline @ '' */'' @ newline
      @ ''contract B { function b() {} }''"
  define b where "b = '' * @title T'' @ newline @ '' * @chapter API Reference'' @ newline @ '' ''"
  define r where "r = \<lparr>doc_name = ''T'', doc_category = ''general'',
      doc_chapter = ''API Reference'', doc_description = []\<rparr>"
  have a1: "docRegex_exec cA = None" unfolding cA_def by code_simp
  have eA: "extractSolidityDocs_text cA = []"
    by (simp only: extractSolidityDocs_text_def docRegex_loop_None[OF a1])
  have b1: "docRegex_exec cB = Some (b, ''contract'', '' B { function b() {} }'')"
    unfolding cB_def b_def by code_simp
  have b2: "docRegex_exec '' B { function b() {} }'' = None" by code_simp
  have b3: "solidity_record b = [r]" unfolding b_def r_def by code_simp
  have eB: "extractSolidityDocs_text cB = [r]"
    by (simp only: extractSolidityDocs_text_def docRegex_loop_Some[OF b1] docRegex_loop_None[OF b2]
        b3 append_Nil2)
  have cf: "chapter_file ''API Reference'' = ''api-reference.md''" by code_simp
  have ai: "is_array_index ''API Reference'' = False" "is_array_index ''general'' = False"
    by code_simp+
  have srt: "sort_names [''A.sol'', ''B.sol''] = [''A.sol'', ''B.sol'']" by code_simp
  have f: "doc_chapter r = ''API Reference''" "doc_category r = ''general''" "doc_name r = ''T''"
    "doc_description r = []"
    unfolding r_def by simp_all
  have run: "generateDocumentation
      \<lparr>fs = [([''contracts''], Directory), ([''contracts'', ''A.sol''], File cA),
             ([''contracts'', ''B.sol''], File cB)], cwd = [], stderr = []\<rparr> =
     (Inr (),
      \<lparr>fs = [([''contracts''], Directory), ([''contracts'', ''A.sol''], File cA),
             ([''contracts'', ''B.sol''], File cB), ([''docs''], Directory),
             ([''docs'', ''api-reference.md''],
              File (''# API Reference Examples'' @ newline @ newline @ ''## general'' @ newline
                    @ newline @ ''### T'' @ newline @ newline @ ''---'' @ newline @ newline))],
       cwd = [], stderr = []\<rparr>)"
    by (simp add: generateDocumentation_def io_bind_def process_cwd_def path_join_simple
        simple_segment_def existsSync_def stat_def mkdirSync_recursive_def readdirSync_def ret_def
        process_contract_file_def ends_sol extractSolidityDocs_def readFileSync_def eA eB srt
        generateAPIReference_def writeFileSync_def fs_put_def generateMarkdown_def try_js_def
        group_push_def js_get_def Object_prototype_keys_def js_entries_def ai cf f
        write_chapter_def category_markdown_def item_markdown_def)
  have n1: "function_exec cB = Some (''b'', ''} }'')" unfolding cB_def by code_simp
  have n2: "function_exec ''} }'' = None" by code_simp
  have names: "function_names cB = [''b'']"
    by (simp only: function_names_Some[OF n1] function_names_None[OF n2])
  have m: "match_contract cB = Some ''B''" unfolding cB_def by code_simp
  have "api_text cB = ''# API Reference'' @ newline @ newline @ ''## B'' @ newline @ newline
       @ ''### Functions'' @ newline @ newline @ ''- `b()`'' @ newline @ newline"
    unfolding api_text_def names m by simp
  with run show ?thesis unfolding cA_def cB_def by (rule conjI)
qed

text \<open>
  Claim C10, amended. Every call of generateAPIReference writes
  \<open>docs/api-reference.md\<close>, and the contract files are processed in the order of the
  directory listing. So when the run returns and the listing of \<open>contracts\<close> has simple
  entry names and at least one name ending in \<open>.sol\<close>, the reference written last is the
  one of the last \<open>.sol\<close> file of the listing. The chapter pages are written afterwards,
  into the same directory, for the records the run has extracted: those of the test files
  of \<open>test\<close> and those of the \<open>.sol\<close> files of \<open>contracts\<close>, and of no other file
  (second part). When no such record has a chapter whose page is
  \<open>docs/api-reference.md\<close>, the reference of the last \<open>.sol\<close> file is what is left;
  otherwise what is left is the page of such a chapter (last part).
\<close>

theorem generateDocumentation_api_reference:
  assumes run: "generateDocumentation w = (Inr (), w')"
    and listing: "readdirSync (cwd w @ [''contracts'']) w = (Inr files, w)"
    and names: "list_all simple_segment files"
    and sols: "filter (\<lambda>file. endsWith file ''.sol'') files \<noteq> []"
  shows "\<exists>content docs.
      stat (fs w) (cwd w @ [''contracts'', last (filter (\<lambda>file. endsWith file ''.sol'') files)])
        = Some (File content)
      \<and> (\<forall>d. d \<in> set docs \<longleftrightarrow>
            (\<exists>tests file c. readdirSync (cwd w @ [''test'']) w = (Inr tests, w) \<and> file \<in> set tests
                \<and> (endsWith file ''.test.ts'' \<or> endsWith file ''.spec.ts'')
                \<and> stat (fs w) (path_join (cwd w @ [''test'']) file) = Some (File c)
                \<and> d \<in> set (extractTestDocs_text c))
          \<or> (\<exists>file c. file \<in> set files \<and> endsWith file ''.sol''
                \<and> stat (fs w) (cwd w @ [''contracts'', file]) = Some (File c)
                \<and> d \<in> set (extractSolidityDocs_text c)))
      \<and> (if list_all (\<lambda>d. path_join (cwd w @ [''docs'']) (chapter_file (doc_chapter d))
                            \<noteq> cwd w @ [''docs'', ''api-reference.md'']) docs
         then stat (fs w') (cwd w @ [''docs'', ''api-reference.md'']) = Some (File (api_text content))
         else \<exists>d \<in> set docs. \<exists>body.
                path_join (cwd w @ [''docs'']) (chapter_file (doc_chapter d))
                  = cwd w @ [''docs'', ''api-reference.md'']
              \<and> stat (fs w') (cwd w @ [''docs'', ''api-reference.md''])
                  = Some (File (''# '' @ doc_chapter d @ '' Examples'' @ newline @ newline @ body)))"
proof -
  let ?D = "cwd w @ [''docs'']" and ?T = "cwd w @ [''test'']" and ?C = "cwd w @ [''contracts'']"
  let ?api = "cwd w @ [''docs'', ''api-reference.md'']"
  let ?sol = "\<lambda>file. endsWith file ''.sol''"
  let ?tst = "\<lambda>file. endsWith file ''.test.ts'' \<or> endsWith file ''.spec.ts''"
  have api: "path_join ?D ''api-reference.md'' = ?api"
    by (simp add: path_join_simple simple_segment_def)
  from generateDocumentation_stages[OF run] obtain g testDocs solidityDocs w3 where
    g: "list_all (\<lambda>(q, n). n = Directory \<and> q \<noteq> [] \<and> prefix q ?D \<and> map_of (fs w) q = None) g"
    and s3: "(if stat (fs w @ g) ?T \<noteq> None
        then io_bind (readdirSync ?T) (collect (process_test_file ?T))
        else ret []) (w\<lparr>fs := fs w @ g\<rparr>) = (Inr testDocs, w\<lparr>fs := fs w @ g\<rparr>)"
    and s5: "(if stat (fs w @ g) ?C \<noteq> None
        then io_bind (readdirSync ?C) (collect (process_contract_file ?C ?D))
        else ret []) (w\<lparr>fs := fs w @ g\<rparr>) = (Inr solidityDocs, w3)"
    and r5: "(if testDocs @ solidityDocs \<noteq> []
        then generateMarkdown (testDocs @ solidityDocs) ?D
        else ret ()) w3 = (Inr (), w')"
    by blast
  define w1 where "w1 = w\<lparr>fs := fs w @ g\<rparr>"
  have fs1: "fs w1 = fs w @ g" unfolding w1_def by simp
  have fileq: "\<And>q c. stat (fs w1) q = Some (File c) \<longleftrightarrow> stat (fs w) q = Some (File c)"
    unfolding fs1 by (rule stat_file_after_dirs[OF g])
  have dirT: "\<And>xs. readdirSync ?T w1 = (Inr xs, w1) \<longleftrightarrow> readdirSync ?T w = (Inr xs, w)"
    unfolding w1_def by (rule readdirSync_after_dirs[OF g]) simp
  have dirC: "\<And>xs. readdirSync ?C w1 = (Inr xs, w1) \<longleftrightarrow> readdirSync ?C w = (Inr xs, w)"
    unfolding w1_def by (rule readdirSync_after_dirs[OF g]) simp
  from s3 have "(if stat (fs w1) ?T \<noteq> None
        then io_bind (readdirSync ?T) (collect (process_test_file ?T))
        else ret []) w1 = (Inr testDocs, w1)"
    unfolding w1_def by simp
  from test_stage_exact[OF this refl]
  have tdocs1: "\<forall>d. d \<in> set testDocs \<longleftrightarrow>
           (\<exists>tests file c. readdirSync ?T w1 = (Inr tests, w1) \<and> file \<in> set tests
               \<and> ?tst file \<and> stat (fs w1) (path_join ?T file) = Some (File c)
               \<and> d \<in> set (extractTestDocs_text c))"
    by simp
  have tdocs: "\<forall>d. d \<in> set testDocs \<longleftrightarrow>
           (\<exists>tests file c. readdirSync ?T w = (Inr tests, w) \<and> file \<in> set tests
               \<and> ?tst file \<and> stat (fs w) (path_join ?T file) = Some (File c)
               \<and> d \<in> set (extractTestDocs_text c))"
    using tdocs1 unfolding dirT fileq .
  from listing dirC have listing1: "readdirSync ?C w1 = (Inr files, w1)" by simp
  from readdirSync_Inr[OF listing1] have "stat (fs w1) ?C \<noteq> None" by simp
  with s5 have "io_bind (readdirSync ?C) (collect (process_contract_file ?C ?D)) w1 = (Inr solidityDocs, w3)"
    unfolding w1_def by simp
  with listing1 have loop: "collect (process_contract_file ?C ?D) files w1 = (Inr solidityDocs, w3)"
    by (simp add: io_bind_def)
  have apart: "list_all (\<lambda>file. ?sol file \<longrightarrow> path_join ?C file \<noteq> path_join ?D ''api-reference.md'') files"
    using names sol_is_not_api[of _ "cwd w"] by (auto simp: list_all_iff)
  have cpath: "\<And>file. file \<in> set files \<Longrightarrow> path_join ?C file = cwd w @ [''contracts'', file]"
    using names by (simp add: list_all_iff path_join_simple)
  note L = collect_contract_files_exact[OF loop apart, unfolded api]
  from L have sdocs1: "\<forall>d. d \<in> set solidityDocs \<longleftrightarrow>
           (\<exists>file \<in> set files. \<exists>c. ?sol file
              \<and> stat (fs w1) (path_join ?C file) = Some (File c) \<and> d \<in> set (extractSolidityDocs_text c))"
    by blast
  have sdocs: "\<forall>d. d \<in> set solidityDocs \<longleftrightarrow>
           (\<exists>file c. file \<in> set files \<and> ?sol file
              \<and> stat (fs w) (cwd w @ [''contracts'', file]) = Some (File c)
              \<and> d \<in> set (extractSolidityDocs_text c))"
  proof
    fix d
    have "d \<in> set solidityDocs \<longleftrightarrow>
           (\<exists>file \<in> set files. \<exists>c. ?sol file
              \<and> stat (fs w) (path_join ?C file) = Some (File c) \<and> d \<in> set (extractSolidityDocs_text c))"
      using sdocs1 unfolding fileq by simp
    also have "\<dots> \<longleftrightarrow> (\<exists>file c. file \<in> set files \<and> ?sol file
              \<and> stat (fs w) (cwd w @ [''contracts'', file]) = Some (File c)
              \<and> d \<in> set (extractSolidityDocs_text c))"
      using cpath by (metis (no_types, lifting))
    finally show "d \<in> set solidityDocs \<longleftrightarrow> (\<exists>file c. file \<in> set files \<and> ?sol file
              \<and> stat (fs w) (cwd w @ [''contracts'', file]) = Some (File c)
              \<and> d \<in> set (extractSolidityDocs_text c))" .
  qed
  from L sols obtain content where
    c1: "stat (fs w1) (path_join ?C (last (filter ?sol files))) = Some (File content)"
    and a3: "stat (fs w3) ?api = Some (File (api_text content))"
    by blast
  have "last (filter ?sol files) \<in> set (filter ?sol files)" using sols by (rule last_in_set)
  then have "last (filter ?sol files) \<in> set files" by simp
  from cpath[OF this] c1 have c: "stat (fs w) (cwd w @ [''contracts'', last (filter ?sol files)])
      = Some (File content)"
    unfolding fileq by simp
  define docs where "docs = testDocs @ solidityDocs"
  have exact: "\<forall>d. d \<in> set docs \<longleftrightarrow>
            (\<exists>tests file c. readdirSync ?T w = (Inr tests, w) \<and> file \<in> set tests
                \<and> ?tst file \<and> stat (fs w) (path_join ?T file) = Some (File c)
                \<and> d \<in> set (extractTestDocs_text c))
          \<or> (\<exists>file c. file \<in> set files \<and> ?sol file
                \<and> stat (fs w) (cwd w @ [''contracts'', file]) = Some (File c)
                \<and> d \<in> set (extractSolidityDocs_text c))"
    unfolding docs_def using tdocs sdocs by simp
  from r5 have r5': "(if docs \<noteq> [] then generateMarkdown docs ?D else ret ()) w3 = (Inr (), w')"
    unfolding docs_def .
  have final: "if list_all (\<lambda>d. path_join ?D (chapter_file (doc_chapter d)) \<noteq> ?api) docs
         then stat (fs w') ?api = Some (File (api_text content))
         else \<exists>d \<in> set docs. \<exists>body. path_join ?D (chapter_file (doc_chapter d)) = ?api
              \<and> stat (fs w') ?api
                  = Some (File (''# '' @ doc_chapter d @ '' Examples'' @ newline @ newline @ body))"
  proof (cases "list_all (\<lambda>d. path_join ?D (chapter_file (doc_chapter d)) \<noteq> ?api) docs")
    case True
    have "stat (fs w') ?api = stat (fs w3) ?api"
    proof (cases "docs = []")
      case True
      with r5' show ?thesis by (simp add: ret_def)
    next
      case False
      with r5' have gm: "generateMarkdown docs ?D w3 = (Inr (), w')" by simp
      from True have "\<forall>d \<in> set docs. ?api \<noteq> path_join ?D (chapter_file (doc_chapter d))"
        by (auto simp: list_all_iff)
      from generateMarkdown_other[OF gm this] show ?thesis .
    qed
    with a3 True show ?thesis by simp
  next
    case False
    then have hit: "\<exists>d \<in> set docs. path_join ?D (chapter_file (doc_chapter d)) = ?api"
      by (auto simp: list_all_iff)
    then have "docs \<noteq> []" by auto
    with r5' have gm: "generateMarkdown docs ?D w3 = (Inr (), w')" by simp
    from generateMarkdown_hit[OF gm hit] False show ?thesis by simp
  qed
  from c exact final show ?thesis by blast
qed

theorem generateDocumentation_api_reference_witness:
  \<open>(case generateDocumentation
      \<lparr>fs = [([''contracts''], Directory),
             ([''contracts'', ''B.sol''],
              File (''/**'' @ newline @ '' * @title Box'' @ newline @ '' * @chapter basics'' @ newline
                    @ '' */'' @ newline @ ''contract B { function b() {} }'')),
             ([''contracts'', ''A.sol''], File ''contract A { function a() {} }''),
             ([''contracts'', ''NOTES.txt''],
              File (''/**'' @ newline @ '' * @title N'' @ newline @ '' * @chapter API Reference''
                    @ newline @ '' */'' @ newline @ ''contract N {}'')),
             ([''test''], Directory),
             ([''test'', ''x.test.ts''],
              File (''/**'' @ newline @ '' * @title helper'' @ newline @ '' * @chapter API Reference''
                    @ newline @ '' */'' @ newline @ ''function helper() {}'' @ newline
                    @ ''/**'' @ newline @ '' * @chapter basics'' @ newline @ '' */'' @ newline
                    @ ''it("adds", f);''))],
       cwd = [], stderr = []\<rparr> of
      (result, left) \<Rightarrow>
        result = Inr ()
        \<and> stat (fs left) [''docs'', ''api-reference.md''] =
            Some (File (api_text (''/**'' @ newline @ '' * @title Box'' @ newline
              @ '' * @chapter basics'' @ newline @ '' */'' @ newline @ ''contract B { function b() {} }'')))
        \<and> stat (fs left) [''docs'', ''basics.md''] =
            Some (File (''# basics Examples'' @ newline @ newline @ ''## general'' @ newline @ newline
              @ ''### adds'' @ newline @ newline @ ''---'' @ newline @ newline
              @ ''### Box'' @ newline @ newline @ ''---'' @ newline @ newline)))
   \<and> sort_names [''B.sol'', ''A.sol'', ''NOTES.txt''] = [''A.sol'', ''B.sol'', ''NOTES.txt'']
   \<and> last (filter (\<lambda>file. endsWith file ''.sol'') [''A.sol'', ''B.sol'', ''NOTES.txt'']) = ''B.sol''
   \<and> extractSolidityDocs_text (''/**'' @ newline @ '' * @title N'' @ newline
        @ '' * @chapter API Reference'' @ newline @ '' */'' @ newline @ ''contract N {}'') =
       [\<lparr>doc_name = ''N'', doc_category = ''general'', doc_chapter = ''API Reference'',
         doc_description = []\<rparr>]
   \<and> extractSolidityDocs_text (''/**'' @ newline @ '' * @title helper'' @ newline
        @ '' * @chapter API Reference'' @ newline @ '' */'' @ newline @ ''function helper() {}''
        @ newline @ ''/**'' @ newline @ '' * @chapter basics'' @ newline @ '' */'' @ newline
        @ ''it("adds", f);'') =
       [\<lparr>doc_name = ''helper'', doc_category = ''general'', doc_chapter = ''API Reference'',
         doc_description = []\<rparr>]
   \<and> path_join [''docs''] (chapter_file ''API Reference'') = [''docs'', ''api-reference.md'']\<close>
proof -
  define cA where "cA = ''contract A { function a() {} }''"
  define cB where "cB = ''/**'' @ newline @ '' * @title Box'' @ newline @ '' * @chapter basics''
      @ newline @ '' */'' @ newline @ ''contract B { function b() {} }''"
  define nts where "nts = ''/**'' @ newline @ '' * @title N'' @ newline
      @ '' * @chapter API Reference'' @ newline @ '' */'' @ newline @ ''contract N {}''"
  define tx where \<open>tx = ''/**'' @ newline @ '' * @title helper'' @ newline
      @ '' * @chapter API Reference'' @ newline @ '' */'' @ newline @ ''function helper() {}''
      @ newline @ ''/**'' @ newline @ '' * @chapter basics'' @ newline @ '' */'' @ newline
      @ ''it("adds", f);''\<close>
  define rt where "rt = \<lparr>doc_name = ''adds'', doc_category = ''general'', doc_chapter = ''basics'',
      doc_description = []\<rparr>"
  define rb where "rb = \<lparr>doc_name = ''Box'', doc_category = ''general'', doc_chapter = ''basics'',
      doc_description = []\<rparr>"
  define page where "page = ''# basics Examples'' @ newline @ newline @ ''## general'' @ newline @ newline
      @ ''### adds'' @ newline @ newline @ ''---'' @ newline @ newline
      @ ''### Box'' @ newline @ newline @ ''---'' @ newline @ newline"
  define w where "w = \<lparr>fs = [([''contracts''], Directory), ([''contracts'', ''B.sol''], File cB),
      ([''contracts'', ''A.sol''], File cA), ([''contracts'', ''NOTES.txt''], File nts),
      ([''test''], Directory), ([''test'', ''x.test.ts''], File tx)], cwd = [], stderr = []\<rparr>"
  define w' where "w' = \<lparr>fs = [([''contracts''], Directory), ([''contracts'', ''B.sol''], File cB),
      ([''contracts'', ''A.sol''], File cA), ([''contracts'', ''NOTES.txt''], File nts),
      ([''test''], Directory), ([''test'', ''x.test.ts''], File tx), ([''docs''], Directory),
      ([''docs'', ''api-reference.md''], File (api_text cB)), ([''docs'', ''basics.md''], File page)],
      cwd = [], stderr = []\<rparr>"
  have a1: "docRegex_exec cA = None" unfolding cA_def by code_simp
  have eA: "extractSolidityDocs_text cA = []"
    by (simp only: extractSolidityDocs_text_def docRegex_loop_None[OF a1])
  have b1: "docRegex_exec cB =
      Some ('' * @title Box'' @ newline @ '' * @chapter basics'' @ newline @ '' '', ''contract'',
            '' B { function b() {} }'')"
    unfolding cB_def by code_simp
  have b2: "docRegex_exec '' B { function b() {} }'' = None" by code_simp
  have b3: "solidity_record ('' * @title Box'' @ newline @ '' * @chapter basics'' @ newline @ '' '') = [rb]"
    unfolding rb_def by code_simp
  have eB: "extractSolidityDocs_text cB = [rb]"
    by (simp only: extractSolidityDocs_text_def docRegex_loop_Some[OF b1] docRegex_loop_None[OF b2]
        b3 append_Nil2)
  have n1: "docRegex_exec nts =
      Some ('' * @title N'' @ newline @ '' * @chapter API Reference'' @ newline @ '' '', ''contract'',
            '' N {}'')"
    unfolding nts_def by code_simp
  have n2: "docRegex_exec '' N {}'' = None" by code_simp
  have n3: "solidity_record ('' * @title N'' @ newline @ '' * @chapter API Reference'' @ newline @ '' '') =
      [\<lparr>doc_name = ''N'', doc_category = ''general'', doc_chapter = ''API Reference'',
        doc_description = []\<rparr>]"
    by code_simp
  have eN: "extractSolidityDocs_text nts =
      [\<lparr>doc_name = ''N'', doc_category = ''general'', doc_chapter = ''API Reference'',
        doc_description = []\<rparr>]"
    by (simp only: extractSolidityDocs_text_def docRegex_loop_Some[OF n1] docRegex_loop_None[OF n2]
        n3 append_Nil2)
  define tx2 where \<open>tx2 = '' helper() {}'' @ newline @ ''/**'' @ newline @ '' * @chapter basics''
      @ newline @ '' */'' @ newline @ ''it("adds", f);''\<close>
  have x1: "docRegex_exec tx =
      Some ('' * @title helper'' @ newline @ '' * @chapter API Reference'' @ newline @ '' '',
            ''function'', tx2)"
    unfolding tx_def tx2_def by code_simp
  have x2: "docRegex_exec tx2 = None" unfolding tx2_def by code_simp
  have x3: "solidity_record ('' * @title helper'' @ newline @ '' * @chapter API Reference'' @ newline @ '' '') =
      [\<lparr>doc_name = ''helper'', doc_category = ''general'', doc_chapter = ''API Reference'',
        doc_description = []\<rparr>]"
    by code_simp
  have eX: "extractSolidityDocs_text tx =
      [\<lparr>doc_name = ''helper'', doc_category = ''general'', doc_chapter = ''API Reference'',
        doc_description = []\<rparr>]"
    by (simp only: extractSolidityDocs_text_def docRegex_loop_Some[OF x1] docRegex_loop_None[OF x2]
        x3 append_Nil2)
  have tl: \<open>split (CHR 0x0A) tx = [''/**'', '' * @title helper'', '' * @chapter API Reference'', '' */'',
      ''function helper() {}'', ''/**'', '' * @chapter basics'', '' */'', ''it("adds", f);'']\<close>
    unfolding tx_def by code_simp
  have ts: \<open>scan_comment_lines test_record [''/**'', '' * @title helper'', '' * @chapter API Reference'',
      '' */'', ''function helper() {}'', ''/**'', '' * @chapter basics'', '' */'', ''it("adds", f);''] =
      test_record (''/**'' @ newline @ '' * @title helper'' @ newline @ '' * @chapter API Reference''
          @ newline @ '' */'') (Some ''function helper() {}'')
      @ test_record (''/**'' @ newline @ '' * @chapter basics'' @ newline @ '' */'') (Some ''it("adds", f);'')\<close>
    by (simp add: newline_def)
  have tr1: \<open>test_record (''/**'' @ newline @ '' * @title helper'' @ newline @ '' * @chapter API Reference''
          @ newline @ '' */'') (Some ''function helper() {}'') = []\<close>
    by code_simp
  have tr2: \<open>test_record (''/**'' @ newline @ '' * @chapter basics'' @ newline @ '' */'')
      (Some ''it("adds", f);'') = [rt]\<close>
    unfolding rt_def by code_simp
  have eT: "extractTestDocs_text tx = [rt]"
    by (simp only: extractTestDocs_text_def tl ts tr1 tr2 append_Nil)
  have srt: "sort_names [''B.sol'', ''A.sol'', ''NOTES.txt''] = [''A.sol'', ''B.sol'', ''NOTES.txt'']"
    by code_simp
  have srt': "sort_names [''x.test.ts''] = [''x.test.ts'']" by code_simp
  have cf: "chapter_file ''basics'' = ''basics.md''" by code_simp
  have cf': "chapter_file ''API Reference'' = ''api-reference.md''" by code_simp
  have ai: "is_array_index ''basics'' = False" "is_array_index ''general'' = False"
    by code_simp+
  have f: "doc_chapter rt = ''basics''" "doc_category rt = ''general''" "doc_name rt = ''adds''"
    "doc_description rt = []" "doc_chapter rb = ''basics''" "doc_category rb = ''general''"
    "doc_name rb = ''Box''" "doc_description rb = []"
    unfolding rt_def rb_def by simp_all
  have run: "generateDocumentation w = (Inr (), w')"
    unfolding w_def w'_def page_def
    by (simp add: generateDocumentation_def io_bind_def process_cwd_def path_join_simple
        simple_segment_def existsSync_def stat_def mkdirSync_recursive_def readdirSync_def ret_def
        process_contract_file_def process_test_file_def ends_sol extractSolidityDocs_def
        extractTestDocs_def readFileSync_def eA eB eT srt srt'
        generateAPIReference_def writeFileSync_def fs_put_def generateMarkdown_def try_js_def
        group_push_def js_get_def Object_prototype_keys_def js_entries_def ai cf f
        write_chapter_def category_markdown_def item_markdown_def)
  have listing: "readdirSync (cwd w @ [''contracts'']) w = (Inr [''A.sol'', ''B.sol'', ''NOTES.txt''], w)"
    unfolding w_def by (simp add: readdirSync_def stat_def srt)
  have tlisting: "readdirSync (cwd w @ [''test'']) w = (Inr [''x.test.ts''], w)"
    unfolding w_def by (simp add: readdirSync_def stat_def srt')
  have names: "list_all simple_segment [''A.sol'', ''B.sol'', ''NOTES.txt'']"
    by (simp add: simple_segment_def)
  have fl: "filter (\<lambda>file. endsWith file ''.sol'') [''A.sol'', ''B.sol'', ''NOTES.txt''] = [''A.sol'', ''B.sol'']"
    by (simp add: ends_sol)
  have sols: "filter (\<lambda>file. endsWith file ''.sol'') [''A.sol'', ''B.sol'', ''NOTES.txt''] \<noteq> []"
    unfolding fl by simp
  have pt: "path_join (cwd w @ [''test'']) ''x.test.ts'' = [''test'', ''x.test.ts'']"
    unfolding w_def by (simp add: path_join_simple simple_segment_def)
  have pb: "path_join (cwd w @ [''docs'']) (chapter_file ''basics'') = [''docs'', ''basics.md'']"
    unfolding w_def cf by (simp add: path_join_simple simple_segment_def)
  have st: "stat (fs w) [''test'', ''x.test.ts''] = Some (File tx)"
    "stat (fs w) (cwd w @ [''contracts'', ''A.sol'']) = Some (File cA)"
    "stat (fs w) (cwd w @ [''contracts'', ''B.sol'']) = Some (File cB)"
    unfolding w_def by (simp_all add: stat_def)
  from generateDocumentation_api_reference[OF run listing names sols]
  obtain content docs where
    c: "stat (fs w) (cwd w @ [''contracts'', last (filter (\<lambda>file. endsWith file ''.sol'')
          [''A.sol'', ''B.sol'', ''NOTES.txt''])]) = Some (File content)"
    and exact: "\<forall>d. d \<in> set docs \<longleftrightarrow>
            (\<exists>tests file c. readdirSync (cwd w @ [''test'']) w = (Inr tests, w) \<and> file \<in> set tests
                \<and> (endsWith file ''.test.ts'' \<or> endsWith file ''.spec.ts'')
                \<and> stat (fs w) (path_join (cwd w @ [''test'']) file) = Some (File c)
                \<and> d \<in> set (extractTestDocs_text c))
          \<or> (\<exists>file c. file \<in> set [''A.sol'', ''B.sol'', ''NOTES.txt''] \<and> endsWith file ''.sol''
                \<and> stat (fs w) (cwd w @ [''contracts'', file]) = Some (File c)
                \<and> d \<in> set (extractSolidityDocs_text c))"
    and final: "if list_all (\<lambda>d. path_join (cwd w @ [''docs'']) (chapter_file (doc_chapter d))
                            \<noteq> cwd w @ [''docs'', ''api-reference.md'']) docs
         then stat (fs w') (cwd w @ [''docs'', ''api-reference.md'']) = Some (File (api_text content))
         else \<exists>d \<in> set docs. \<exists>body.
                path_join (cwd w @ [''docs'']) (chapter_file (doc_chapter d))
                  = cwd w @ [''docs'', ''api-reference.md'']
              \<and> stat (fs w') (cwd w @ [''docs'', ''api-reference.md''])
                  = Some (File (''# '' @ doc_chapter d @ '' Examples'' @ newline @ newline @ body))"
    by blast
  from c st(3) have content: "content = cB" unfolding fl by simp
  have "d = rt \<or> d = rb" if "d \<in> set docs" for d
  proof -
    from that exact consider
      (t) tests fl c where "readdirSync (cwd w @ [''test'']) w = (Inr tests, w)" "fl \<in> set tests"
        "stat (fs w) (path_join (cwd w @ [''test'']) fl) = Some (File c)" "d \<in> set (extractTestDocs_text c)"
    | (s) fl c where "fl \<in> set [''A.sol'', ''B.sol'', ''NOTES.txt'']" "endsWith fl ''.sol''"
        "stat (fs w) (cwd w @ [''contracts'', fl]) = Some (File c)" "d \<in> set (extractSolidityDocs_text c)"
      by blast
    then show ?thesis
    proof cases
      case t
      from t(1) tlisting have "tests = [''x.test.ts'']" by simp
      with t(2) have "fl = ''x.test.ts''" by simp
      with t(3) pt st(1) have "c = tx" by simp
      with t(4) eT show ?thesis by simp
    next
      case s
      from s(1,2) ends_sol(3) consider "fl = ''A.sol''" | "fl = ''B.sol''" by auto
      then show ?thesis
      proof cases
        case 1
        with s(3) st(2) have "c = cA" by simp
        with s(4) eA show ?thesis by simp
      next
        case 2
        with s(3) st(3) have "c = cB" by simp
        with s(4) eB show ?thesis by simp
      qed
    qed
  qed
  then have "\<forall>d \<in> set docs. doc_chapter d = ''basics''" using f by auto
  then have "list_all (\<lambda>d. path_join (cwd w @ [''docs'']) (chapter_file (doc_chapter d))
                            \<noteq> cwd w @ [''docs'', ''api-reference.md'']) docs"
    unfolding list_all_iff using pb by (simp add: w_def)
  with final content have left: "stat (fs w') (cwd w @ [''docs'', ''api-reference.md'']) = Some (File (api_text cB))"
    by simp
  have l: "last (filter (\<lambda>file. endsWith file ''.sol'') [''A.sol'', ''B.sol'', ''NOTES.txt'']) = ''B.sol''"
    unfolding fl by simp
  have pa: "path_join [''docs''] (chapter_file ''API Reference'') = [''docs'', ''api-reference.md'']"
    unfolding cf' by (simp add: path_join_simple simple_segment_def)
  have pg: "stat (fs w') [''docs'', ''basics.md''] = Some (File page)"
    unfolding w'_def by (simp add: stat_def)
  from left have left': "stat (fs w') [''docs'', ''api-reference.md''] = Some (File (api_text cB))"
    by (simp add: w_def)
  have "case generateDocumentation w of
      (result, left) \<Rightarrow> result = Inr ()
        \<and> stat (fs left) [''docs'', ''api-reference.md''] = Some (File (api_text cB))
        \<and> stat (fs left) [''docs'', ''basics.md''] = Some (File page)"
    unfolding run using left' pg by simp
  with srt l eN eX pa show ?thesis
    unfolding w_def page_def cA_def cB_def nts_def tx_def by simp
qed

end
